theory Spec2Isabelle
  imports Main "HOL-Library.Sublist"
begin

section \<open>Runes, strings and locations\<close>

text \<open>
  The Go code converts every string it scans with \<^verbatim>\<open>[]rune(s)\<close> and then works on
  the runes one by one. A rune is a Unicode code point, so a string is modelled by the list
  of its code points, and a rune by a natural number. The few runes the scanners compare
  against are named below; \<open>to_runes\<close> turns an ASCII literal into its rune list.
\<close>

type_synonym rune = nat

definition to_runes :: "string \<Rightarrow> rune list" where
  "to_runes s = map of_char s"

abbreviation (input) tab :: rune where "tab \<equiv> 9"
abbreviation (input) newline :: rune where "newline \<equiv> 10"
abbreviation (input) carriage_return :: rune where "carriage_return \<equiv> 13"
abbreviation (input) quote :: rune where "quote \<equiv> 34"
abbreviation (input) lparen :: rune where "lparen \<equiv> 40"
abbreviation (input) rparen :: rune where "rparen \<equiv> 41"
abbreviation (input) star :: rune where "star \<equiv> 42"
abbreviation (input) comma :: rune where "comma \<equiv> 44"
abbreviation (input) dot :: rune where "dot \<equiv> 46"
abbreviation (input) slash :: rune where "slash \<equiv> 47"
abbreviation (input) backslash :: rune where "backslash \<equiv> 92"
abbreviation (input) lbrace :: rune where "lbrace \<equiv> 123"
abbreviation (input) rbrace :: rune where "rbrace \<equiv> 125"

text \<open>
  \<^verbatim>\<open>type Location struct { path string; row int; column int }\<close>.
  Rows and columns are Go \<^verbatim>\<open>int\<close>s that only ever grow by one per rune read, so they
  stay far below \<open>2^63\<close> and are modelled by unbounded integers.
\<close>

record Location =
  path :: "rune list"
  row :: int
  column :: int

text \<open>
  The position bookkeeping of the \<^verbatim>\<open>advance\<close> closures (and of
  \<^verbatim>\<open>Tokenizer.advance\<close>): a newline starts the next row at column 1, any other rune
  moves one column to the right.
\<close>

definition advance_loc :: "Location \<Rightarrow> rune \<Rightarrow> Location" where
  "advance_loc loc char =
     (if char = newline then loc\<lparr>row := row loc + 1, column := 1\<rparr>
      else loc\<lparr>column := column loc + 1\<rparr>)"

text \<open>
  The position of the rune that follows \<open>pre\<close>, when \<open>pre\<close> starts at \<open>loc\<close>: this is
  what "the position of a character" means in the statements below.
\<close>

definition loc_after :: "Location \<Rightarrow> rune list \<Rightarrow> Location" where
  "loc_after loc pre = foldl advance_loc loc pre"

section \<open>Errors\<close>

text \<open>
  Each error the Go code builds with \<^verbatim>\<open>fmt.Errorf\<close> is a sentinel wrapped together with
  a location and, for the token errors, the token's value. The model keeps the sentinel
  and exactly the data that is formatted into the message. \<open>Panic\<close> is the
  \<^verbatim>\<open>panic\<close> of \<^verbatim>\<open>errIncorrectArgsCount\<close>.
\<close>

datatype error =
    ErrTemplateUnexpectedToken Location "rune list"
  | ErrTemplateUnexpectedEof Location
  | ErrTemplateVariableNotFound Location "rune list"
  | ErrTemplateIncorrectArgsCount Location "rune list"
  | ErrTemplateUnterminatedCodeBlock Location
  | ErrTemplateInternalFunctionExecutionError Location "rune list"
  | ErrTokenizerUnterminatedString Location
  | ErrUnclosedComment
  | ErrJsonUnmarshal
  | ErrInvalidJsonHeader "rune list"
  | Panic

section \<open>Template portions and the template compiler\<close>

record TemplateContext =
  StaticDir :: "rune list"
  Content :: "rune list"
  Variables :: "rune list \<rightharpoonup> rune list"

datatype TemplatePortion =
    TemplateTextPortion "rune list"
  | TemplateCodePortion TemplateContext Location "rune list"

type_synonym Template = "TemplatePortion list"

text \<open>The local variables of \<^verbatim>\<open>NewTemplateFromString\<close> that its loop updates.\<close>

record compile_state =
  portions :: "TemplatePortion list"
  location :: Location
  accumulatedText :: "rune list"
  codeMode :: bool
  codeModeLocation :: Location

text \<open>
  The loop \<^verbatim>\<open>for i < len(runes)\<close> of \<^verbatim>\<open>NewTemplateFromString\<close>; the list argument
  is \<^verbatim>\<open>runes[i:]\<close>. The four branches are the source's, in its order: the backslash
  escape (with the \<^verbatim>\<open>break\<close> on a trailing backslash), the opening brace outside code
  mode, the closing brace in code mode, and any other rune.
\<close>

fun template_loop :: "TemplateContext \<Rightarrow> compile_state \<Rightarrow> rune list \<Rightarrow> compile_state" where
  "template_loop codeCtx s [] = s"
| "template_loop codeCtx s (char # rest) =
     (if char = backslash then
        (case rest of
           [] \<Rightarrow> s\<lparr>location := advance_loc (location s) char,
                   accumulatedText := accumulatedText s @ [char]\<rparr>
         | next # rest' \<Rightarrow>
             template_loop codeCtx
               (s\<lparr>location := advance_loc (advance_loc (location s) char) next,
                  accumulatedText := accumulatedText s @ [next]\<rparr>) rest')
      else if char = lbrace \<and> \<not> codeMode s then
        template_loop codeCtx
          (s\<lparr>portions := portions s @ [TemplateTextPortion (accumulatedText s)],
             accumulatedText := [],
             codeMode := True,
             location := advance_loc (location s) char,
             codeModeLocation := advance_loc (location s) char\<rparr>) rest
      else if char = rbrace \<and> codeMode s then
        template_loop codeCtx
          (s\<lparr>codeMode := False,
             portions := portions s @
               [TemplateCodePortion codeCtx (codeModeLocation s) (accumulatedText s)],
             accumulatedText := [],
             location := advance_loc (location s) char\<rparr>) rest
      else
        template_loop codeCtx
          (s\<lparr>location := advance_loc (location s) char,
             accumulatedText := accumulatedText s @ [char]\<rparr>) rest)"

definition initial_state :: "Location \<Rightarrow> compile_state" where
  "initial_state initialLocation =
     \<lparr>portions = [], location = initialLocation, accumulatedText = [],
      codeMode = False, codeModeLocation = \<lparr>path = [], row = 0, column = 0\<rparr>\<rparr>"

definition NewTemplateFromString ::
  "Location \<Rightarrow> rune list \<Rightarrow> TemplateContext \<Rightarrow> error + Template" where
  "NewTemplateFromString initialLocation textContent codeCtx =
     (let s = template_loop codeCtx (initial_state initialLocation) textContent in
      if codeMode s then
        Inl (ErrTemplateUnterminatedCodeBlock
               \<lparr>path = path (codeModeLocation s), row = row (codeModeLocation s),
                column = column (codeModeLocation s) - 1\<rparr>)
      else if accumulatedText s \<noteq> [] then
        Inr (portions s @ [TemplateTextPortion (accumulatedText s)])
      else Inr (portions s))"

section \<open>The tokenizer\<close>

text \<open>
  \<^verbatim>\<open>tokenizer.go\<close>. A token carries its kind, its value and the location of its first
  rune. The tokenizer is the Go struct: the runes, the cursor into them, the location of
  the rune under the cursor, and the runes that are tokens by themselves.
\<close>

datatype TokenKind = TokenKindWord | TokenKindString | TokenKindSingleChar

record Token =
  tok_kind :: TokenKind
  tok_value :: "rune list"
  tok_location :: Location

record Tokenizer =
  runes :: "rune list"
  cursor :: nat
  tz_location :: Location
  singleCharTokens :: "rune list"

definition NewTokenizer :: "rune list \<Rightarrow> Location \<Rightarrow> Tokenizer" where
  "NewTokenizer code loc =
     \<lparr>runes = code, cursor = 0, tz_location = loc,
      singleCharTokens = [lparen, rparen, lbrace, rbrace, comma]\<rparr>"

text \<open>
  \<^verbatim>\<open>peek\<close> and \<^verbatim>\<open>advance\<close>: the second result of the Go methods (\<^verbatim>\<open>ok\<close>) is the
  option. \<^verbatim>\<open>advance\<close> changes the tokenizer, so the model returns the new one.
\<close>

definition peek :: "Tokenizer \<Rightarrow> rune option" where
  "peek t = (if cursor t \<ge> length (runes t) then None else Some (runes t ! cursor t))"

definition advance :: "Tokenizer \<Rightarrow> rune option \<times> Tokenizer" where
  "advance t =
     (if cursor t \<ge> length (runes t) then (None, t)
      else (let char = runes t ! cursor t in
            (Some char, t\<lparr>cursor := cursor t + 1,
                           tz_location := advance_loc (tz_location t) char\<rparr>)))"

text \<open>
  \<^verbatim>\<open>unicode.IsSpace\<close> of the Go standard library: in Latin-1 the tab, the
  newline, the vertical tab, the form feed, the carriage return, the space, U+0085 and
  U+00A0; beyond it the runes with the Unicode
  property White_Space (U+1680, U+2000 to U+200A, U+2028, U+2029, U+202F, U+205F, U+3000).
\<close>

definition IsSpace :: "rune \<Rightarrow> bool" where
  "IsSpace r =
     (if r \<le> 255 then r \<in> {9, 10, 11, 12, 13, 32, 133, 160}
      else r = 5760 \<or> (8192 \<le> r \<and> r \<le> 8202) \<or> r = 8232 \<or> r = 8233 \<or>
           r = 8239 \<or> r = 8287 \<or> r = 12288)"

text \<open>
  The number of runes the tokenizer has not read yet. Every loop of the tokenizer and of
  the argument parser reads at least one rune per round, which is why they terminate.
\<close>

definition remaining :: "Tokenizer \<Rightarrow> nat" where
  "remaining t = length (runes t) - cursor t"

lemma advance_remaining:
  "fst (advance t) = Some c \<Longrightarrow> remaining (snd (advance t)) < remaining t"
  by (auto simp: advance_def remaining_def Let_def split: if_splits)

lemma advance_less: "(Some c, t') = advance t \<Longrightarrow> remaining t' < remaining t"
  by (auto simp: advance_def remaining_def Let_def split: if_splits)

lemma advance_less2:
  "(Some c, t') = advance t \<Longrightarrow> (Some d, t'') = advance t' \<Longrightarrow> remaining t'' < remaining t"
  using advance_less less_trans by blast

lemma peek_advance: "peek t = Some c \<Longrightarrow> fst (advance t) = Some c"
  by (auto simp: advance_def peek_def Let_def split: if_splits)

text \<open>
  \<^verbatim>\<open>skipWhitespace\<close>: the loop advances while the rune under the cursor is a space.
\<close>

function skipWhitespace :: "Tokenizer \<Rightarrow> Tokenizer" where
  "skipWhitespace t =
     (case peek t of
        None \<Rightarrow> t
      | Some char \<Rightarrow> if \<not> IsSpace char then t else skipWhitespace (snd (advance t)))"
  by pat_completeness auto
termination
  by (relation "measure remaining") (auto dest!: peek_advance advance_remaining)

definition isSingleChar :: "Tokenizer \<Rightarrow> rune \<Rightarrow> bool" where
  "isSingleChar t r = (r \<in> set (singleCharTokens t))"

text \<open>
  What the \<^verbatim>\<open>switch escaped\<close> of \<^verbatim>\<open>NextToken\<close> writes for the rune after a backslash
  inside a string literal: \<^verbatim>\<open>n\<close> (110), \<^verbatim>\<open>t\<close> (116) and \<^verbatim>\<open>r\<close> (114) give the control
  runes, a quote and a backslash give themselves, any other rune is kept with its
  backslash.
\<close>

definition string_escape :: "rune \<Rightarrow> rune list" where
  "string_escape escaped =
     (if escaped = 110 then [newline]
      else if escaped = 116 then [tab]
      else if escaped = 114 then [carriage_return]
      else if escaped = quote then [quote]
      else if escaped = backslash then [backslash]
      else [backslash, escaped])"

text \<open>
  The loop of \<^verbatim>\<open>NextToken\<close> that reads a string literal, entered after the opening
  quote. It fails with \<^verbatim>\<open>ErrTokenizerUnterminatedString\<close>, at the location where the input
  ends, when the input ends before the closing quote or right after a backslash.
\<close>

function string_loop :: "Tokenizer \<Rightarrow> rune list \<Rightarrow> error + (rune list \<times> Tokenizer)" where
  "string_loop t val =
     (case advance t of
        (None, t1) \<Rightarrow> Inl (ErrTokenizerUnterminatedString (tz_location t1))
      | (Some c, t1) \<Rightarrow>
          if c = backslash then
            (case advance t1 of
               (None, t2) \<Rightarrow> Inl (ErrTokenizerUnterminatedString (tz_location t2))
             | (Some escaped, t2) \<Rightarrow> string_loop t2 (val @ string_escape escaped))
          else if c = quote then Inr (val, t1)
          else string_loop t1 (val @ [c]))"
  by pat_completeness auto
termination
  by (relation "measure (\<lambda>(t, v). remaining t)")
     (auto intro: advance_less advance_less2)


text \<open>
  The loop of \<^verbatim>\<open>NextToken\<close> that reads a word: up to the next space, single-character
  token or quote.
\<close>

function word_loop :: "Tokenizer \<Rightarrow> rune list \<Rightarrow> rune list \<times> Tokenizer" where
  "word_loop t val =
     (case peek t of
        None \<Rightarrow> (val, t)
      | Some char \<Rightarrow>
          if IsSpace char \<or> isSingleChar t char \<or> char = quote then (val, t)
          else word_loop (snd (advance t)) (val @ [char]))"
  by pat_completeness auto
termination
  by (relation "measure (\<lambda>(t, v). remaining t)")
     (auto dest!: peek_advance advance_remaining)

text \<open>
  \<^verbatim>\<open>NextToken\<close>. The result is an error, or the token (\<open>None\<close> for Go's \<^verbatim>\<open>nil\<close> at the
  end of the input) together with the tokenizer after the call.
\<close>

definition NextToken :: "Tokenizer \<Rightarrow> error + (Token option \<times> Tokenizer)" where
  "NextToken t0 =
     (let t = skipWhitespace t0 in
      case peek t of
        None \<Rightarrow> Inr (None, t)
      | Some char \<Rightarrow>
          (let loc = tz_location t in
           if isSingleChar t char then
             Inr (Some \<lparr>tok_kind = TokenKindSingleChar, tok_value = [char], tok_location = loc\<rparr>,
                  snd (advance t))
           else if char = quote then
             (case string_loop (snd (advance t)) [] of
                Inl e \<Rightarrow> Inl e
              | Inr (val, t') \<Rightarrow>
                  Inr (Some \<lparr>tok_kind = TokenKindString, tok_value = val, tok_location = loc\<rparr>, t'))
           else
             (case word_loop t [] of
                (val, t') \<Rightarrow>
                  Inr (Some \<lparr>tok_kind = TokenKindWord, tok_value = val, tok_location = loc\<rparr>, t'))))"

definition IsWord :: "Token \<Rightarrow> bool" where
  "IsWord tok = (tok_kind tok = TokenKindWord)"

definition IsString :: "Token \<Rightarrow> bool" where
  "IsString tok = (tok_kind tok = TokenKindString)"

text \<open>
  \<^verbatim>\<open>Token.IsSingleChar\<close> reads the first rune of the value only when the kind is
  \<^verbatim>\<open>TokenKindSingleChar\<close>; \<^verbatim>\<open>NextToken\<close> gives such a token a value of exactly one rune,
  so the empty value (where Go would panic) does not arise.
\<close>

definition IsSingleChar :: "Token \<Rightarrow> rune \<Rightarrow> bool" where
  "IsSingleChar tok r =
     (tok_kind tok = TokenKindSingleChar \<and>
      (case tok_value tok of [] \<Rightarrow> False | c # _ \<Rightarrow> c = r))"

definition mustNextToken :: "Tokenizer \<Rightarrow> Location \<Rightarrow> error + (Token \<times> Tokenizer)" where
  "mustNextToken tokenizer loc =
     (case NextToken tokenizer of
        Inl err \<Rightarrow> Inl err
      | Inr (None, t') \<Rightarrow> Inl (ErrTemplateUnexpectedEof loc)
      | Inr (Some tok, t') \<Rightarrow> Inr (tok, t'))"

lemma skipWhitespace_remaining: "remaining (skipWhitespace t) \<le> remaining t"
proof (induction t rule: skipWhitespace.induct)
  case (1 t)
  show ?case
  proof (cases "peek t")
    case None
    then show ?thesis by simp
  next
    case (Some char)
    show ?thesis
    proof (cases "IsSpace char")
      case True
      with Some 1 have "remaining (skipWhitespace (snd (advance t))) \<le> remaining (snd (advance t))"
        by simp
      moreover have "remaining (snd (advance t)) < remaining t"
        using Some by (auto dest!: peek_advance advance_remaining)
      ultimately show ?thesis using Some True by simp
    next
      case False
      with Some show ?thesis by simp
    qed
  qed
qed

lemma skipWhitespace_peek: "peek (skipWhitespace t) = Some c \<Longrightarrow> \<not> IsSpace c"
proof (induction t rule: skipWhitespace.induct)
  case (1 t)
  show ?case
  proof (cases "peek t")
    case None
    with 1(2) show ?thesis by simp
  next
    case (Some char)
    show ?thesis
    proof (cases "IsSpace char")
      case True
      with Some 1(2) have "peek (skipWhitespace (snd (advance t))) = Some c" by simp
      with 1(1) [OF Some] True show ?thesis by simp
    next
      case False
      with Some 1(2) show ?thesis by simp
    qed
  qed
qed

lemma string_loop_remaining:
  "string_loop t val = Inr (v, t') \<Longrightarrow> remaining t' \<le> remaining t"
proof (induction t val rule: string_loop.induct)
  case (1 t val)
  obtain x t1 where a1: "advance t = (x, t1)" by (cases "advance t")
  show ?case
  proof (cases x)
    case None
    with a1 1(3) show ?thesis by simp
  next
    case (Some c)
    have l1: "remaining t1 < remaining t" using a1 Some advance_less [of c t1 t] by simp
    show ?thesis
    proof (cases "c = backslash")
      case True
      obtain y t2 where a2: "advance t1 = (y, t2)" by (cases "advance t1")
      show ?thesis
      proof (cases y)
        case None
        with a1 a2 Some True 1(3) show ?thesis by simp
      next
        case (Some escaped)
        have l2: "remaining t2 < remaining t1" using a2 Some advance_less [of escaped t2 t1] by simp
        have "string_loop t2 (val @ string_escape escaped) = Inr (v, t')"
          using 1(3) a1 a2 \<open>x = Some c\<close> True Some by simp
        then have "remaining t' \<le> remaining t2"
          using 1(1) [OF a1 [symmetric] \<open>x = Some c\<close> True a2 [symmetric] Some] by simp
        with l1 l2 show ?thesis by simp
      qed
    next
      case False
      show ?thesis
      proof (cases "c = quote")
        case True
        with a1 Some False 1(3) l1 show ?thesis by simp
      next
        case nq: False
        have "string_loop t1 (val @ [c]) = Inr (v, t')"
          using 1(3) a1 Some False nq by simp
        then have "remaining t' \<le> remaining t1"
          using 1(2) [OF a1 [symmetric] Some False nq] by simp
        with l1 show ?thesis by simp
      qed
    qed
  qed
qed

lemma word_loop_remaining: "word_loop t val = (v, t') \<Longrightarrow> remaining t' \<le> remaining t"
proof (induction t val rule: word_loop.induct)
  case (1 t val)
  show ?case
  proof (cases "peek t")
    case None
    with 1(2) show ?thesis by simp
  next
    case (Some char)
    show ?thesis
    proof (cases "IsSpace char \<or> isSingleChar t char \<or> char = quote")
      case True
      with Some 1(2) show ?thesis by auto
    next
      case False
      with Some 1(2) have "word_loop (snd (advance t)) (val @ [char]) = (v, t')" by simp
      then have "remaining t' \<le> remaining (snd (advance t))"
        using 1(1) [OF Some False] by simp
      moreover have "remaining (snd (advance t)) < remaining t"
        using Some by (auto dest!: peek_advance advance_remaining)
      ultimately show ?thesis by simp
    qed
  qed
qed

lemma NextToken_remaining:
  assumes "NextToken t0 = Inr (Some tok, t')"
  shows "remaining t' < remaining t0"
proof -
  let ?t = "skipWhitespace t0"
  have le: "remaining ?t \<le> remaining t0" by (rule skipWhitespace_remaining)
  show ?thesis
  proof (cases "peek ?t")
    case None
    with assms show ?thesis by (simp add: NextToken_def)
  next
    case (Some char)
    have adv: "remaining (snd (advance ?t)) < remaining ?t"
      using Some by (auto dest!: peek_advance advance_remaining)
    show ?thesis
    proof (cases "isSingleChar ?t char")
      case True
      with assms Some have "t' = snd (advance ?t)" by (simp add: NextToken_def Let_def)
      with adv le show ?thesis by simp
    next
      case False
      show ?thesis
      proof (cases "char = quote")
        case True
        with assms Some False obtain val where "string_loop (snd (advance ?t)) [] = Inr (val, t')"
          by (auto simp: NextToken_def Let_def split: sum.splits)
        then have "remaining t' \<le> remaining (snd (advance ?t))" by (rule string_loop_remaining)
        with adv le show ?thesis by simp
      next
        case nq: False
        from Some have ns: "\<not> IsSpace char" by (rule skipWhitespace_peek)
        from assms Some False nq obtain val where w: "word_loop ?t [] = (val, t')"
          by (auto simp: NextToken_def Let_def split: prod.splits)
        then have "word_loop (snd (advance ?t)) [char] = (val, t')"
          using Some False nq ns by (subst (asm) word_loop.simps) simp
        then have "remaining t' \<le> remaining (snd (advance ?t))" by (rule word_loop_remaining)
        with adv le show ?thesis by simp
      qed
    qed
  qed
qed

section \<open>Parsing a directive's argument list\<close>

text \<open>
  \<^verbatim>\<open>template.go\<close>: the error constructors, \<^verbatim>\<open>mustNextToken\<close> and
  \<^verbatim>\<open>parseFunctionArgs\<close>. The \<^verbatim>\<open>for\<close> loop of \<^verbatim>\<open>parseFunctionArgs\<close> is \<open>args_loop\<close>;
  each round reads a closing parenthesis, or a comma and the next argument.
\<close>

lemma mustNextToken_remaining:
  "mustNextToken t loc = Inr (tok, t') \<Longrightarrow> remaining t' < remaining t"
  by (auto simp: mustNextToken_def dest: NextToken_remaining split: sum.splits option.splits)

definition errUnexpectedToken :: "Token \<Rightarrow> error" where
  "errUnexpectedToken tok = ErrTemplateUnexpectedToken (tok_location tok) (tok_value tok)"

definition errUnexpectedEof :: "Location \<Rightarrow> error" where
  "errUnexpectedEof loc = ErrTemplateUnexpectedEof loc"

definition errVariableNotFound :: "Token \<Rightarrow> error" where
  "errVariableNotFound tok = ErrTemplateVariableNotFound (tok_location tok) (tok_value tok)"

definition errIncorrectArgsCount :: "Token \<Rightarrow> error" where
  "errIncorrectArgsCount tok =
     (if tok_kind tok \<noteq> TokenKindWord then Panic
      else ErrTemplateIncorrectArgsCount (tok_location tok) (tok_value tok))"

definition errTemplateInternalFunctionExecutionError :: "Token \<Rightarrow> error" where
  "errTemplateInternalFunctionExecutionError tok =
     ErrTemplateInternalFunctionExecutionError (tok_location tok) (tok_value tok)"

function args_loop ::
  "Tokenizer \<Rightarrow> Location \<Rightarrow> Token list \<Rightarrow> error + (Token list \<times> Tokenizer)" where
  "args_loop tokenizer loc args =
     (case mustNextToken tokenizer loc of
        Inl err \<Rightarrow> Inl err
      | Inr (tok, t1) \<Rightarrow>
          if IsSingleChar tok rparen then Inr (args, t1)
          else if \<not> IsSingleChar tok comma then Inl (errUnexpectedToken tok)
          else
            (case mustNextToken t1 loc of
               Inl err \<Rightarrow> Inl err
             | Inr (tok', t2) \<Rightarrow>
                 if IsSingleChar tok' rparen \<or> IsSingleChar tok' comma
                 then Inl (errUnexpectedToken tok')
                 else args_loop t2 loc (args @ [tok'])))"
  by pat_completeness auto
termination
proof (relation "measure (\<lambda>(t, loc, args). remaining t)", goal_cases)
  case 1
  show ?case by simp
next
  case (2 tokenizer loc args x2 tok t1 x2a tok' t2)
  have "remaining t1 < remaining tokenizer"
    using 2 mustNextToken_remaining [of tokenizer loc tok t1] by simp
  moreover have "remaining t2 < remaining t1"
    using 2 mustNextToken_remaining [of t1 loc tok' t2] by simp
  ultimately show ?case by simp
qed

definition parseFunctionArgs ::
  "Tokenizer \<Rightarrow> Location \<Rightarrow> error + (Token list \<times> Tokenizer)" where
  "parseFunctionArgs tokenizer loc =
     (case mustNextToken tokenizer loc of
        Inl err \<Rightarrow> Inl err
      | Inr (tok, t1) \<Rightarrow>
          if \<not> IsSingleChar tok lparen then Inl (errUnexpectedToken tok)
          else
            (case mustNextToken t1 loc of
               Inl err \<Rightarrow> Inl err
             | Inr (tok', t2) \<Rightarrow>
                 if IsSingleChar tok' rparen then Inr ([], t2)
                 else if IsSingleChar tok' comma then Inl (errUnexpectedToken tok')
                 else args_loop t2 loc [tok']))"


section \<open>The path functions of the Go standard library\<close>

text \<open>
  \<^verbatim>\<open>path.Ext\<close>, \<^verbatim>\<open>path.Clean\<close> and \<^verbatim>\<open>path.Join\<close> are not code of this repository;
  they are transcribed from the Go standard library (package \<^verbatim>\<open>path\<close>). They work on
  bytes; the slash and the dot are ASCII, so on the code points of a UTF-8 string they give
  the same result. \<open>backtrack\<close> is the inner loop of \<^verbatim>\<open>Clean\<close> that removes the last
  element of the output on a \<^verbatim>\<open>..\<close>; \<open>clean_step\<close> is the body of its main loop, with
  the output buffer \<open>out\<close>, the index \<open>dotdot\<close> and the unread path \<open>c # p\<close>.
\<close>

function backtrack :: "rune list \<Rightarrow> nat \<Rightarrow> nat \<Rightarrow> nat" where
  "backtrack out dotdot w =
     (if w > dotdot \<and> out ! w \<noteq> slash then backtrack out dotdot (w - 1) else w)"
  by pat_completeness auto
termination
  by (relation "measure (\<lambda>(out, dotdot, w). w)") auto

declare backtrack.simps [simp del]



definition clean_step ::
  "bool \<Rightarrow> rune list \<Rightarrow> nat \<Rightarrow> rune \<Rightarrow> rune list \<Rightarrow> rune list \<times> nat \<times> rune list" where
  "clean_step rooted out dotdot c p =
     (if c = slash then (out, dotdot, p)
      else if c = dot \<and> (p = [] \<or> hd p = slash) then (out, dotdot, p)
      else if c = dot \<and> hd p = dot \<and> (tl p = [] \<or> hd (tl p) = slash) then
        (if length out > dotdot then
           (take (backtrack out dotdot (length out - 1)) out, dotdot, tl p)
         else if \<not> rooted then
           (let out' = (if length out > 0 then out @ [slash] else out) @ [dot, dot]
            in (out', length out', tl p))
         else (out, dotdot, tl p))
      else
        (let out' = (if rooted \<and> length out \<noteq> 1 \<or> \<not> rooted \<and> length out \<noteq> 0
                     then out @ [slash] else out)
         in (out' @ takeWhile (\<lambda>x. x \<noteq> slash) (c # p), dotdot,
             dropWhile (\<lambda>x. x \<noteq> slash) (c # p))))"



lemma clean_step_length:
  "length (snd (snd (clean_step rooted out dotdot c p))) \<le> length p"
proof -
  have "length (dropWhile (\<lambda>x. x \<noteq> slash) p) \<le> length p" by (rule length_dropWhile_le)
  then show ?thesis
    by (simp add: clean_step_def Let_def)
qed

lemma clean_step_rest:
  "clean_step rooted out dotdot c p = (out', dotdot', rest) \<Longrightarrow> length rest \<le> length p"
  using clean_step_length [of rooted out dotdot c p] by (metis snd_conv)

function clean_loop :: "bool \<Rightarrow> rune list \<Rightarrow> nat \<Rightarrow> rune list \<Rightarrow> rune list" where
  "clean_loop rooted out dotdot [] = out"
| "clean_loop rooted out dotdot (c # p) =
     (case clean_step rooted out dotdot c p of
        (out', dotdot', rest) \<Rightarrow> clean_loop rooted out' dotdot' rest)"
  by pat_completeness auto
termination
  by (relation "measure (\<lambda>(rooted, out, dotdot, p). length p)")
     (auto split: prod.splits simp: less_Suc_eq_le dest: clean_step_rest)

definition path_Clean :: "rune list \<Rightarrow> rune list" where
  "path_Clean p =
     (if p = [] then [dot]
      else
        (let rooted = (hd p = slash);
             out = (if rooted then clean_loop rooted [slash] 1 (tl p)
                    else clean_loop rooted [] 0 p)
         in if out = [] then [dot] else out))"

fun join_loop :: "rune list \<Rightarrow> rune list list \<Rightarrow> rune list" where
  "join_loop buf [] = buf"
| "join_loop buf (e # elem) =
     (if length buf > 0 \<or> e \<noteq> [] then
        join_loop ((if length buf > 0 then buf @ [slash] else buf) @ e) elem
      else join_loop buf elem)"

definition path_Join :: "rune list list \<Rightarrow> rune list" where
  "path_Join elem =
     (if sum_list (map length elem) = 0 then [] else path_Clean (join_loop [] elem))"

fun Ext_loop :: "rune list \<Rightarrow> nat \<Rightarrow> rune list" where
  "Ext_loop p 0 = []"
| "Ext_loop p (Suc i) =
     (if p ! i = slash then []
      else if p ! i = dot then drop i p
      else Ext_loop p i)"

definition path_Ext :: "rune list \<Rightarrow> rune list" where
  "path_Ext p = Ext_loop p (length p)"

section \<open>The world outside the program\<close>

text \<open>
  What the program gets from outside: the directory listing of \<^verbatim>\<open>os.ReadDir\<close> (the entry
  names, or \<open>None\<close> for an error), the random source behind \<^verbatim>\<open>rand.Intn\<close> (a state \<open>'g\<close>
  that each call reads and replaces), and the decoder \<^verbatim>\<open>json.Unmarshal\<close> into a map from
  strings to strings (\<open>None\<close> for an error).
\<close>

record 'g Env =
  os_ReadDir :: "rune list \<Rightarrow> rune list list option"
  rand_Intn :: "'g \<Rightarrow> nat \<Rightarrow> nat \<times> 'g"
  json_Unmarshal :: "rune list \<Rightarrow> (rune list \<rightharpoonup> rune list) option"

section \<open>The directive evaluator\<close>

text \<open>
  The three directives and \<^verbatim>\<open>TemplateCodePortion.Render\<close>, which tokenizes the code from
  the portion's location and dispatches on the first token. Only
  \<^verbatim>\<open>chooseRandomTopLevelFileFromStaticPath\<close> touches the world, so only it returns the new
  state of the random source; \<open>eligible\<close> is its loop over the directory entries. Where
  \<^verbatim>\<open>files[chosenIndex]\<close> would be out of range the model says \<open>Panic\<close>; \<^verbatim>\<open>rand.Intn\<close>
  promises an index below \<^verbatim>\<open>len(files)\<close>.
\<close>

definition renderVar ::
  "TemplateContext \<Rightarrow> Location \<Rightarrow> Tokenizer \<Rightarrow> Token \<Rightarrow> error + rune list" where
  "renderVar ctx loc tokenizer funcTok =
     (case parseFunctionArgs tokenizer loc of
        Inl err \<Rightarrow> Inl err
      | Inr (args, t') \<Rightarrow>
          if length args \<noteq> 1 then Inl (errIncorrectArgsCount funcTok)
          else
            (let varNameToken = args ! 0 in
             if tok_kind varNameToken \<noteq> TokenKindString
             then Inl (errUnexpectedToken varNameToken)
             else
               (let varName = tok_value varNameToken in
                case Variables ctx varName of
                  None \<Rightarrow> Inl (errVariableNotFound varNameToken)
                | Some v \<Rightarrow> Inr v)))"

definition renderContent ::
  "TemplateContext \<Rightarrow> Location \<Rightarrow> Tokenizer \<Rightarrow> Token \<Rightarrow> error + rune list" where
  "renderContent ctx loc tokenizer funcTok =
     (case parseFunctionArgs tokenizer loc of
        Inl err \<Rightarrow> Inl err
      | Inr (args, t') \<Rightarrow>
          if length args \<noteq> 0 then Inl (errIncorrectArgsCount funcTok)
          else Inr (Content ctx))"

definition eligible :: "rune list \<Rightarrow> rune list list \<Rightarrow> rune list list" where
  "eligible ext dirEntries = filter (\<lambda>name. \<not> (ext \<noteq> [] \<and> path_Ext name = ext)) dirEntries"

definition renderChooseRandomTopLevelFileFromStaticPath ::
  "'g Env \<Rightarrow> 'g \<Rightarrow> TemplateContext \<Rightarrow> Location \<Rightarrow> Tokenizer \<Rightarrow> Token \<Rightarrow>
   (error + rune list) \<times> 'g" where
  "renderChooseRandomTopLevelFileFromStaticPath env g ctx loc tokenizer funcTok =
     (case parseFunctionArgs tokenizer loc of
        Inl err \<Rightarrow> (Inl err, g)
      | Inr (args, t') \<Rightarrow>
          if length args < 1 \<or> length args > 2 then (Inl (errIncorrectArgsCount funcTok), g)
          else
            (let dirPathToken = args ! 0 in
             if tok_kind dirPathToken \<noteq> TokenKindString
             then (Inl (errUnexpectedToken dirPathToken), g)
             else
               (let dirPath = tok_value dirPathToken in
                case (if length args > 1 then
                        (let extToken = args ! 1 in
                         if tok_kind extToken \<noteq> TokenKindString
                         then Inl (errUnexpectedToken extToken)
                         else Inr (tok_value extToken))
                      else Inr []) of
                  Inl err \<Rightarrow> (Inl err, g)
                | Inr ext \<Rightarrow>
                    (case os_ReadDir env (path_Join [StaticDir ctx, path_Clean dirPath]) of
                       None \<Rightarrow> (Inl (errTemplateInternalFunctionExecutionError funcTok), g)
                     | Some dirEntries \<Rightarrow>
                         (let files = eligible ext dirEntries in
                          if length files < 1
                          then (Inl (errTemplateInternalFunctionExecutionError funcTok), g)
                          else
                            (case rand_Intn env g (length files) of
                               (chosenIndex, g') \<Rightarrow>
                                 if chosenIndex < length files
                                 then (Inr (path_Join [[slash], StaticDir ctx, dirPath,
                                                      files ! chosenIndex]), g')
                                 else (Inl Panic, g')))))))"

definition TemplateCodePortion_Render ::
  "'g Env \<Rightarrow> 'g \<Rightarrow> TemplateContext \<Rightarrow> Location \<Rightarrow> rune list \<Rightarrow> (error + rune list) \<times> 'g" where
  "TemplateCodePortion_Render env g ctx loc code =
     (let tokenizer = NewTokenizer code loc in
      case NextToken tokenizer of
        Inl err \<Rightarrow> (Inl err, g)
      | Inr (None, t1) \<Rightarrow> (Inl (errUnexpectedEof loc), g)
      | Inr (Some tok, t1) \<Rightarrow>
          if IsWord tok \<and> tok_value tok = to_runes ''var''
          then (renderVar ctx loc t1 tok, g)
          else if IsWord tok \<and> tok_value tok = to_runes ''content''
          then (renderContent ctx loc t1 tok, g)
          else if IsWord tok \<and> tok_value tok = to_runes ''chooseRandomTopLevelFileFromStaticPath''
          then renderChooseRandomTopLevelFileFromStaticPath env g ctx loc t1 tok
          else (Inl (errUnexpectedToken tok), g))"

fun TemplatePortion_Render ::
  "'g Env \<Rightarrow> 'g \<Rightarrow> TemplatePortion \<Rightarrow> (error + rune list) \<times> 'g" where
  "TemplatePortion_Render env g (TemplateTextPortion text) = (Inr text, g)"
| "TemplatePortion_Render env g (TemplateCodePortion ctx loc code) =
     TemplateCodePortion_Render env g ctx loc code"

fun render_loop ::
  "'g Env \<Rightarrow> 'g \<Rightarrow> rune list \<Rightarrow> TemplatePortion list \<Rightarrow> (error + rune list) \<times> 'g" where
  "render_loop env g builder [] = (Inr builder, g)"
| "render_loop env g builder (portion # rest) =
     (case TemplatePortion_Render env g portion of
        (Inl err, g') \<Rightarrow> (Inl err, g')
      | (Inr renderedPortion, g') \<Rightarrow> render_loop env g' (builder @ renderedPortion) rest)"

definition Template_Render :: "'g Env \<Rightarrow> 'g \<Rightarrow> Template \<Rightarrow> (error + rune list) \<times> 'g" where
  "Template_Render env g t = render_loop env g [] t"

section \<open>JSON with comments\<close>

text \<open>
  \<^verbatim>\<open>json.go\<close>. \<open>block_end\<close> is the inner loop that looks for the end of a block
  comment: it returns the text after the closing \<^verbatim>\<open>*/\<close>, or \<open>None\<close> where the Go code
  returns its "Unclosed comment" error. \<open>comment_step\<close> is the update of \<^verbatim>\<open>inString\<close> and
  \<^verbatim>\<open>escaped\<close> at the head of the main loop, \<open>remove_loop\<close> the main loop with its
  \<^verbatim>\<open>builder\<close>; the list argument is \<^verbatim>\<open>jsonRunes[i:]\<close>.
\<close>

fun block_end :: "rune list \<Rightarrow> rune list option" where
  "block_end (x # y # rest) = (if x = star \<and> y = slash then Some rest else block_end (y # rest))"
| "block_end rest = None"

lemma block_end_length: "block_end rs = Some rest \<Longrightarrow> length rest < length rs"
  by (induction rs rule: block_end.induct) (auto split: if_splits)

lemma line_end_length: "length (dropWhile P (tl rest)) \<le> length rest"
  by (rule order_trans [OF length_dropWhile_le]) simp

definition comment_step ::
  "bool \<Rightarrow> bool \<Rightarrow> rune \<Rightarrow> bool \<times> bool" where
  "comment_step inString escaped c =
     (let inString' = (if c = quote \<and> \<not> escaped then \<not> inString else inString);
          escaped' = (if c = backslash \<and> inString' then \<not> escaped else False)
      in (inString', escaped'))"

function remove_loop ::
  "bool \<Rightarrow> bool \<Rightarrow> rune list \<Rightarrow> rune list \<Rightarrow> error + rune list" where
  "remove_loop inString escaped builder [] = Inr builder"
| "remove_loop inString escaped builder (c # rest) =
     (case comment_step inString escaped c of
        (inString', escaped') \<Rightarrow>
          if \<not> inString' \<and> c = slash \<and> rest \<noteq> [] then
            (if hd rest = slash then
               remove_loop inString' escaped' builder
                 (dropWhile (\<lambda>x. x \<noteq> newline \<and> x \<noteq> carriage_return) (tl rest))
             else if hd rest = star then
               (case block_end (tl rest) of
                  None \<Rightarrow> Inl ErrUnclosedComment
                | Some rest' \<Rightarrow> remove_loop inString' escaped' builder rest')
             else remove_loop inString' escaped' (builder @ [c]) rest)
          else remove_loop inString' escaped' (builder @ [c]) rest)"
  by pat_completeness auto
termination
  by (relation "measure (\<lambda>(i, e, b, rs). length rs)")
     (auto simp: less_Suc_eq_le line_end_length dest!: block_end_length)

definition removeCommentsFromJson :: "rune list \<Rightarrow> error + rune list" where
  "removeCommentsFromJson json = remove_loop False False [] json"

definition UnmarshalJsonWithComments ::
  "'g Env \<Rightarrow> rune list \<Rightarrow> error + (rune list \<rightharpoonup> rune list)" where
  "UnmarshalJsonWithComments env s =
     (case removeCommentsFromJson s of
        Inl err \<Rightarrow> Inl err
      | Inr sWithoutComments \<Rightarrow>
          (case json_Unmarshal env sWithoutComments of
             None \<Rightarrow> Inl ErrJsonUnmarshal
           | Some v \<Rightarrow> Inr v))"

section \<open>The page composer\<close>

text \<open>
  \<^verbatim>\<open>NewTemplateInputFromString\<close>. \<open>header_step\<close> is the \<^verbatim>\<open>if escaped ... else if inString
  ... else ...\<close> of the first loop, \<open>header_loop\<close> the loop itself: it returns the header, the
  location after it and the runes not yet read. The second loop copies those runes, and
  the template is compiled from them at the location the first loop reached.
\<close>

record header_scan =
  bracketBalance :: int
  inString :: bool
  escaped :: bool

definition header_step :: "header_scan \<Rightarrow> rune \<Rightarrow> header_scan" where
  "header_step st r =
     (if escaped st then st\<lparr>escaped := False\<rparr>
      else if inString st then
        (if r = backslash then st\<lparr>escaped := True\<rparr>
         else if r = quote then st\<lparr>inString := False\<rparr>
         else st)
      else
        (if r = quote then st\<lparr>inString := True\<rparr>
         else if r = lbrace then st\<lparr>bracketBalance := bracketBalance st + 1\<rparr>
         else if r = rbrace then st\<lparr>bracketBalance := bracketBalance st - 1\<rparr>
         else st))"

fun header_loop ::
  "header_scan \<Rightarrow> rune list \<Rightarrow> Location \<Rightarrow> rune list \<Rightarrow> rune list \<times> Location \<times> rune list" where
  "header_loop st jsonHeader loc [] = (jsonHeader, loc, [])"
| "header_loop st jsonHeader loc (r # rest) =
     (let st' = header_step st r;
          jsonHeader' = jsonHeader @ [r];
          loc' = advance_loc loc r
      in if \<not> inString st' \<and> bracketBalance st' = 0 then (jsonHeader', loc', rest)
         else header_loop st' jsonHeader' loc' rest)"

record TemplateInput =
  variables :: "rune list \<rightharpoonup> rune list"
  content :: Template

definition NewTemplateInputFromString ::
  "'g Env \<Rightarrow> Location \<Rightarrow> rune list \<Rightarrow> rune list \<Rightarrow> error + TemplateInput" where
  "NewTemplateInputFromString env initialLocation textContent staticDir =
     (case header_loop \<lparr>bracketBalance = 0, inString = False, escaped = False\<rparr> []
             initialLocation textContent of
        (jsonHeader, loc, templateInputContent) \<Rightarrow>
          (case UnmarshalJsonWithComments env jsonHeader of
             Inl err \<Rightarrow> Inl (ErrInvalidJsonHeader (path initialLocation))
           | Inr templateInputVariables \<Rightarrow>
               (case NewTemplateFromString loc templateInputContent
                       \<lparr>StaticDir = staticDir, Content = to_runes ''[content()]'',
                        Variables = templateInputVariables\<rparr> of
                  Inl err \<Rightarrow> Inl err
                | Inr t \<Rightarrow> Inr \<lparr>variables = templateInputVariables, content = t\<rparr>)))"

definition TemplateInput_Render ::
  "'g Env \<Rightarrow> 'g \<Rightarrow> TemplateInput \<Rightarrow> (error + rune list) \<times> 'g" where
  "TemplateInput_Render env g templateInput = Template_Render env g (content templateInput)"

section \<open>The vocabulary of the statements\<close>

text \<open>
  The definitions of this section are not part of the program: they say what the claims
  talk about (an escaped rune, a brace that is never closed, a string literal, a comment),
  independently of the scanners they are compared with.
\<close>

subsection \<open>Escapes and braces in template text\<close>

text \<open>
  \<open>unescape\<close> resolves the escapes of a text: a backslash is dropped and the rune after
  it is kept, whatever it is; a backslash at the very end is kept. \<open>dangling\<close> holds when
  the text ends with a backslash that is not itself escaped, so that the rune following the
  text would be escaped. \<open>scan_mode m\<close> is the mode (inside a code block or not) after the
  text, when it starts in mode \<open>m\<close>. \<open>no_unescaped stop\<close> holds when the rune \<open>stop\<close> occurs
  in the text only escaped.
\<close>

fun unescape :: "rune list \<Rightarrow> rune list" where
  "unescape [] = []"
| "unescape (c # cs) =
     (if c = backslash then (case cs of [] \<Rightarrow> [c] | d # ds \<Rightarrow> d # unescape ds)
      else c # unescape cs)"

fun dangling :: "rune list \<Rightarrow> bool" where
  "dangling [] = False"
| "dangling (c # cs) =
     (if c = backslash then (case cs of [] \<Rightarrow> True | d # ds \<Rightarrow> dangling ds)
      else dangling cs)"

fun scan_mode :: "bool \<Rightarrow> rune list \<Rightarrow> bool" where
  "scan_mode m [] = m"
| "scan_mode m (c # cs) =
     (if c = backslash then (case cs of [] \<Rightarrow> m | d # ds \<Rightarrow> scan_mode m ds)
      else if c = lbrace \<and> \<not> m then scan_mode True cs
      else if c = rbrace \<and> m then scan_mode False cs
      else scan_mode m cs)"

fun no_unescaped :: "rune \<Rightarrow> rune list \<Rightarrow> bool" where
  "no_unescaped stop [] = True"
| "no_unescaped stop (c # cs) =
     (if c = backslash then (case cs of [] \<Rightarrow> True | d # ds \<Rightarrow> no_unescaped stop ds)
      else c \<noteq> stop \<and> no_unescaped stop cs)"

text \<open>
  One whole code block: read from a state outside code mode, the text \<open>{c}\<close> flushes the
  accumulated text and appends one code portion.
\<close>

definition after_block :: "TemplateContext \<Rightarrow> compile_state \<Rightarrow> rune list \<Rightarrow> compile_state" where
  "after_block ctx s c =
     s\<lparr>portions := portions s @
          [TemplateTextPortion (accumulatedText s),
           TemplateCodePortion ctx (advance_loc (location s) lbrace) (unescape c)],
       accumulatedText := [],
       codeMode := False,
       location := loc_after (location s) (lbrace # c @ [rbrace]),
       codeModeLocation := advance_loc (location s) lbrace\<rparr>"

subsection \<open>Reading with the tokenizer\<close>

text \<open>
  \<open>unread\<close> is the input the tokenizer has not read yet and \<open>seek t pre\<close> the tokenizer
  \<open>t\<close> after it has read the runes \<open>pre\<close>. A \<open>word_rune\<close> is a rune that may stand in a
  word, and a tokenizer is \<open>standard\<close> when its single-character tokens are those of
  \<^verbatim>\<open>NewTokenizer\<close>.
\<close>

definition unread :: "Tokenizer \<Rightarrow> rune list" where
  "unread t = drop (cursor t) (runes t)"

definition seek :: "Tokenizer \<Rightarrow> rune list \<Rightarrow> Tokenizer" where
  "seek t pre =
     t\<lparr>cursor := cursor t + length pre, tz_location := loc_after (tz_location t) pre\<rparr>"

definition word_rune :: "Tokenizer \<Rightarrow> rune \<Rightarrow> bool" where
  "word_rune t c = (\<not> IsSpace c \<and> \<not> isSingleChar t c \<and> c \<noteq> quote)"

definition standard :: "Tokenizer \<Rightarrow> bool" where
  "standard t = (singleCharTokens t = [lparen, rparen, lbrace, rbrace, comma])"

subsection \<open>The header of a page-data file\<close>

text \<open>
  The state in which the header scan starts, the state after scanning a prefix, and the
  condition under which the scan stops: outside a string, at depth zero.
\<close>

definition header_start :: header_scan where
  "header_start = \<lparr>bracketBalance = 0, inString = False, escaped = False\<rparr>"

definition scan_header :: "header_scan \<Rightarrow> rune list \<Rightarrow> header_scan" where
  "scan_header st p = foldl header_step st p"

definition header_done :: "header_scan \<Rightarrow> bool" where
  "header_done st = (\<not> inString st \<and> bracketBalance st = 0)"

subsection \<open>Strings and comments in JSON text\<close>

text \<open>
  \<open>string_body\<close> holds for what stands between the quotes of a string literal: no quote
  except after a backslash, and no backslash left without a rune to escape. \<open>closes\<close>
  holds when the text contains the two runes that end a block comment. A JSON text with
  comments is described as a list of segments: text outside strings and comments (here
  without quotes and slashes), a string literal, a line comment with the line end that
  follows it, and a closed block comment. \<open>segment_text\<close> is the text of a segment,
  \<open>segment_kept\<close> what comment stripping is to leave of it.
\<close>

fun string_body :: "rune list \<Rightarrow> bool" where
  "string_body [] = True"
| "string_body (c # cs) =
     (if c = backslash then (case cs of [] \<Rightarrow> False | d # ds \<Rightarrow> string_body ds)
      else c \<noteq> quote \<and> string_body cs)"

fun closes :: "rune list \<Rightarrow> bool" where
  "closes (x # y # rest) = (x = star \<and> y = slash \<or> closes (y # rest))"
| "closes rest = False"

datatype json_segment =
    Plain "rune list"
  | StringLit "rune list"
  | LineComment "rune list" rune
  | BlockComment "rune list"

fun wf_segment :: "json_segment \<Rightarrow> bool" where
  "wf_segment (Plain p) = (quote \<notin> set p \<and> slash \<notin> set p)"
| "wf_segment (StringLit b) = string_body b"
| "wf_segment (LineComment cm eol) =
     (newline \<notin> set cm \<and> carriage_return \<notin> set cm \<and>
      (eol = newline \<or> eol = carriage_return))"
| "wf_segment (BlockComment cm) = (\<not> closes cm)"

fun segment_text :: "json_segment \<Rightarrow> rune list" where
  "segment_text (Plain p) = p"
| "segment_text (StringLit b) = quote # b @ [quote]"
| "segment_text (LineComment cm eol) = slash # slash # cm @ [eol]"
| "segment_text (BlockComment cm) = slash # star # cm @ [star, slash]"

fun segment_kept :: "json_segment \<Rightarrow> rune list" where
  "segment_kept (Plain p) = p"
| "segment_kept (StringLit b) = quote # b @ [quote]"
| "segment_kept (LineComment cm eol) = [eol]"
| "segment_kept (BlockComment cm) = []"

subsection \<open>A small world for the worked examples\<close>

text \<open>
  The concrete values the witnesses and counterexamples below are evaluated on: a start
  location, a rendering context with one variable, a static directory with three
  subdirectories, a deterministic stand-in for the random source, and a stand-in for
  \<^verbatim>\<open>json.Unmarshal\<close> that decodes the two headers of the examples and rejects
  everything else.
\<close>

definition demo_loc :: Location where
  "demo_loc = \<lparr>path = to_runes ''page'', row = 1, column = 1\<rparr>"

definition demo_ctx :: TemplateContext where
  "demo_ctx = \<lparr>StaticDir = to_runes ''static'', Content = to_runes ''<p>Hi</p>'',
               Variables = [to_runes ''title'' \<mapsto> to_runes ''Home'']\<rparr>"

definition demo_ReadDir :: "rune list \<Rightarrow> rune list list option" where
  "demo_ReadDir p =
     (if p = to_runes ''static/img''
      then Some [to_runes ''README'', to_runes ''a.png'', to_runes ''b.txt'']
      else if p = to_runes ''static/one'' then Some [to_runes ''a.png'']
      else if p = to_runes ''static/none'' then Some []
      else None)"

definition demo_Intn :: "nat \<Rightarrow> nat \<Rightarrow> nat \<times> nat" where
  "demo_Intn g n = (g mod n, Suc g)"

definition demo_Unmarshal :: "rune list \<Rightarrow> (rune list \<rightharpoonup> rune list) option" where
  \<open>demo_Unmarshal s =
     (if s = to_runes ''{"title":"//not a comment inside string"}''
      then Some [to_runes ''title'' \<mapsto> to_runes ''//not a comment inside string'']
      else if s = to_runes ''{"t":"}"}''
      then Some [to_runes ''t'' \<mapsto> to_runes ''}'']
      else None)\<close>

definition demo_env :: "nat Env" where
  "demo_env = \<lparr>os_ReadDir = demo_ReadDir, rand_Intn = demo_Intn, json_Unmarshal = demo_Unmarshal\<rparr>"

section \<open>Facts about the scanners\<close>

subsection \<open>The template compiler\<close>

lemma loc_after_Nil [simp]: "loc_after loc [] = loc"
  by (simp add: loc_after_def)

lemma loc_after_Cons [simp]: "loc_after loc (c # cs) = loc_after (advance_loc loc c) cs"
  by (simp add: loc_after_def)

lemma loc_after_append: "loc_after loc (xs @ ys) = loc_after (loc_after loc xs) ys"
  by (simp add: loc_after_def)

lemma advance_loc_plain:
  "c \<noteq> newline \<Longrightarrow> advance_loc loc c = loc\<lparr>column := column loc + 1\<rparr>"
  by (simp add: advance_loc_def)

lemma template_loop_append:
  "\<not> dangling pre \<Longrightarrow>
   template_loop ctx s (pre @ rest) = template_loop ctx (template_loop ctx s pre) rest"
proof (induction ctx s pre rule: template_loop.induct)
  case (1 codeCtx s)
  then show ?case by simp
next
  case (2 codeCtx s char rest')
  then show ?case
    by (cases rest') (auto split: if_splits)
qed

lemma template_loop_mode:
  "codeMode (template_loop ctx s pre) = scan_mode (codeMode s) pre \<and>
   location (template_loop ctx s pre) = loc_after (location s) pre"
proof (induction ctx s pre rule: template_loop.induct)
  case (1 codeCtx s)
  then show ?case by simp
next
  case (2 codeCtx s char rest')
  then show ?case
    by (cases rest') (auto split: if_splits)
qed

lemma template_loop_plain:
  "no_unescaped (if codeMode s then rbrace else lbrace) c \<Longrightarrow>
   template_loop ctx s c =
     s\<lparr>location := loc_after (location s) c,
       accumulatedText := accumulatedText s @ unescape c\<rparr>"
proof (induction ctx s c rule: template_loop.induct)
  case (1 codeCtx s)
  then show ?case by simp
next
  case (2 codeCtx s char rest')
  then show ?case
    by (cases rest') (auto split: if_splits)
qed

lemma template_loop_portions:
  "\<exists>ts. portions (template_loop ctx s rest) = portions s @ ts"
proof (induction ctx s rest rule: template_loop.induct)
  case (1 codeCtx s)
  then show ?case by simp
next
  case (2 codeCtx s char rest')
  then show ?case
    by (cases rest') (auto split: if_splits)
qed

lemma template_loop_last_backslash:
  "\<exists>t. accumulatedText (template_loop ctx s (pre @ [backslash])) = t @ [backslash]"
proof (induction ctx s pre rule: template_loop.induct)
  case (1 codeCtx s)
  then show ?case by simp
next
  case (2 codeCtx s char rest')
  then show ?case
    by (cases rest') (auto split: if_splits)
qed

lemma template_loop_block:
  assumes "\<not> codeMode s" and "no_unescaped rbrace c" and "\<not> dangling c"
  shows "template_loop ctx s (lbrace # c @ rbrace # rest) =
           template_loop ctx (after_block ctx s c) rest"
proof -
  let ?s1 = "s\<lparr>portions := portions s @ [TemplateTextPortion (accumulatedText s)],
             accumulatedText := [], codeMode := True,
             location := advance_loc (location s) lbrace,
             codeModeLocation := advance_loc (location s) lbrace\<rparr>"
  have "template_loop ctx s (lbrace # c @ rbrace # rest) = template_loop ctx ?s1 (c @ rbrace # rest)"
    using assms(1) by simp
  also have "\<dots> = template_loop ctx (template_loop ctx ?s1 c) (rbrace # rest)"
    using assms(3) by (rule template_loop_append)
  also have "template_loop ctx ?s1 c =
      ?s1\<lparr>location := loc_after (location ?s1) c,
          accumulatedText := accumulatedText ?s1 @ unescape c\<rparr>"
    using assms(2) by (intro template_loop_plain) simp
  finally have "template_loop ctx s (lbrace # c @ rbrace # rest) =
      template_loop ctx
        (?s1\<lparr>location := loc_after (location ?s1) c,
             accumulatedText := accumulatedText ?s1 @ unescape c\<rparr>) (rbrace # rest)" .
  moreover have "template_loop ctx
        (?s1\<lparr>location := loc_after (location ?s1) c,
             accumulatedText := accumulatedText ?s1 @ unescape c\<rparr>) (rbrace # rest) =
      template_loop ctx (after_block ctx s c) rest"
    by (auto simp: after_block_def loc_after_append
             intro!: arg_cong [where f = "\<lambda>s. template_loop ctx s rest"] compile_state.equality)
  ultimately show ?thesis by (rule trans)
qed

lemma unescape_nonempty: "cs \<noteq> [] \<Longrightarrow> unescape cs \<noteq> []"
  by (cases cs) (auto split: list.splits)




lemma compile_block:
  assumes "\<not> dangling pre" and "\<not> scan_mode False pre"
      and "no_unescaped rbrace c" and "\<not> dangling c"
      and "NewTemplateFromString loc (pre @ lbrace # c @ rbrace # rest) ctx = Inr ps"
  shows "\<exists>ts. ps = portions (template_loop ctx (initial_state loc) pre) @
                   TemplateTextPortion (accumulatedText (template_loop ctx (initial_state loc) pre)) #
                   TemplateCodePortion ctx (loc_after loc (pre @ [lbrace])) (unescape c) # ts"
proof -
  let ?s0 = "initial_state loc"
  let ?s1 = "template_loop ctx ?s0 pre"
  have m0: "codeMode ?s0 = False" "location ?s0 = loc" by (simp_all add: initial_state_def)
  from assms(2) m0 have s1: "\<not> codeMode ?s1" "location ?s1 = loc_after loc pre"
    using template_loop_mode [of ctx ?s0 pre] by simp_all
  have "template_loop ctx ?s0 (pre @ lbrace # c @ rbrace # rest) =
        template_loop ctx ?s1 (lbrace # c @ rbrace # rest)"
    using template_loop_append [OF assms(1)] by simp
  also have "\<dots> = template_loop ctx (after_block ctx ?s1 c) rest"
    using s1(1) assms(3,4) by (rule template_loop_block)
  finally have run: "template_loop ctx ?s0 (pre @ lbrace # c @ rbrace # rest) =
        template_loop ctx (after_block ctx ?s1 c) rest" .
  obtain ts where ts: "portions (template_loop ctx (after_block ctx ?s1 c) rest) =
      portions (after_block ctx ?s1 c) @ ts"
    using template_loop_portions by blast
  have blk: "portions (after_block ctx ?s1 c) =
      portions ?s1 @ [TemplateTextPortion (accumulatedText ?s1),
        TemplateCodePortion ctx (loc_after loc (pre @ [lbrace])) (unescape c)]"
    using s1(2) by (simp add: after_block_def loc_after_append)
  from assms(5) have "ps = portions (template_loop ctx (after_block ctx ?s1 c) rest) \<or>
      (\<exists>t. ps = portions (template_loop ctx (after_block ctx ?s1 c) rest) @ [t])"
    unfolding NewTemplateFromString_def Let_def run by (auto split: if_splits)
  then show ?thesis using ts blk by auto
qed

lemmas tokenizer_eval =
  TemplateCodePortion_Render_def NewTokenizer_def NextToken_def peek_def advance_def
  IsSpace_def isSingleChar_def IsSingleChar_def IsWord_def mustNextToken_def
  parseFunctionArgs_def string_escape_def to_runes_def Let_def
  errUnexpectedToken_def errUnexpectedEof_def errVariableNotFound_def
  errIncorrectArgsCount_def errTemplateInternalFunctionExecutionError_def

subsection \<open>The tokenizer on a text that is known in part\<close>

lemma seek_Nil [simp]: "seek t [] = t"
  by (simp add: seek_def)

lemma seek_fields [simp]:
  "runes (seek t pre) = runes t" "singleCharTokens (seek t pre) = singleCharTokens t"
  "cursor (seek t pre) = cursor t + length pre"
  "tz_location (seek t pre) = loc_after (tz_location t) pre"
  by (simp_all add: seek_def)

lemma seek_seek: "seek (seek t a) b = seek t (a @ b)"
  by (simp add: seek_def loc_after_append)

lemma unread_seek: "unread t = pre @ rest \<Longrightarrow> unread (seek t pre) = rest"
  by (simp add: unread_def seek_def) (metis add.commute append_eq_conv_conj drop_drop)

lemma peek_unread: "unread t = c # rest \<Longrightarrow> peek t = Some c"
  by (auto simp: unread_def peek_def hd_drop_conv_nth [symmetric] dest: arg_cong [where f = hd])

lemma peek_end: "unread t = [] \<Longrightarrow> peek t = None"
  by (simp add: unread_def peek_def)

lemma advance_unread: "unread t = c # rest \<Longrightarrow> advance t = (Some c, seek t [c])"
proof -
  assume u: "unread t = c # rest"
  then have "peek t = Some c" by (rule peek_unread)
  then have "cursor t < length (runes t)" "runes t ! cursor t = c"
    by (auto simp: peek_def split: if_splits)
  then show ?thesis by (simp add: advance_def seek_def)
qed

lemma string_loop_plain:
  "unread t = K @ quote # rest \<Longrightarrow> quote \<notin> set K \<Longrightarrow> backslash \<notin> set K \<Longrightarrow>
   string_loop t val = Inr (val @ K, seek t (K @ [quote]))"
proof (induction K arbitrary: t val)
  case Nil
  then have "advance t = (Some quote, seek t [quote])" by (simp add: advance_unread)
  then show ?case by (subst string_loop.simps) simp
next
  case (Cons k K)
  from Cons(2) have a: "advance t = (Some k, seek t [k])" by (simp add: advance_unread)
  from Cons(2) have u: "unread (seek t [k]) = K @ quote # rest"
    using unread_seek [of t "[k]" "K @ quote # rest"] by simp
  have "string_loop (seek t [k]) (val @ [k]) = Inr ((val @ [k]) @ K, seek (seek t [k]) (K @ [quote]))"
    using Cons(1) [OF u] Cons(3,4) by simp
  then have "string_loop (seek t [k]) (val @ [k]) = Inr (val @ k # K, seek t (k # K @ [quote]))"
    by (simp add: seek_seek)
  with a Cons(3,4) show ?case by (subst string_loop.simps) simp
qed

lemma word_rune_seek [simp]: "word_rune (seek t pre) c = word_rune t c"
  by (simp add: word_rune_def isSingleChar_def)

lemma word_loop_word:
  "unread t = w @ d # rest \<Longrightarrow> \<forall>c \<in> set w. word_rune t c \<Longrightarrow> \<not> word_rune t d \<Longrightarrow>
   word_loop t val = (val @ w, seek t w)"
proof (induction w arbitrary: t val)
  case Nil
  then have "peek t = Some d" by (simp add: peek_unread)
  with Nil(3) show ?case by (subst word_loop.simps) (auto simp: word_rune_def)
next
  case (Cons k w)
  from Cons(2) have p: "peek t = Some k" by (simp add: peek_unread)
  from Cons(2) have a: "advance t = (Some k, seek t [k])" by (simp add: advance_unread)
  from Cons(2) have u: "unread (seek t [k]) = w @ d # rest"
    using unread_seek [of t "[k]" "w @ d # rest"] by simp
  have "word_loop (seek t [k]) (val @ [k]) = ((val @ [k]) @ w, seek (seek t [k]) w)"
    using Cons(1) [OF u] Cons(3,4) by simp
  then have "word_loop (seek t [k]) (val @ [k]) = (val @ k # w, seek t (k # w))"
    by (simp add: seek_seek)
  with p a Cons(3) show ?case by (subst word_loop.simps) (auto simp: word_rune_def)
qed

lemma skipWhitespace_none: "unread t = c # rest \<Longrightarrow> \<not> IsSpace c \<Longrightarrow> skipWhitespace t = t"
  by (subst skipWhitespace.simps) (simp add: peek_unread)

lemma NextToken_word:
  assumes "unread t = k # w @ d # rest" and "\<forall>c \<in> set (k # w). word_rune t c"
      and "\<not> word_rune t d"
  shows "NextToken t =
           Inr (Some \<lparr>tok_kind = TokenKindWord, tok_value = k # w, tok_location = tz_location t\<rparr>,
                seek t (k # w))"
proof -
  have k: "\<not> IsSpace k" "\<not> isSingleChar t k" "k \<noteq> quote"
    using assms(2) by (simp_all add: word_rune_def)
  have s: "skipWhitespace t = t" using assms(1) k(1) by (rule skipWhitespace_none)
  have p: "peek t = Some k" using assms(1) by (rule peek_unread)
  have w: "word_loop t [] = ([] @ k # w, seek t (k # w))"
    using assms by (intro word_loop_word [where d = d and rest = rest]) simp_all
  show ?thesis using s p k w by (simp add: NextToken_def)
qed

lemma NextToken_single:
  assumes "unread t = c # rest" and "isSingleChar t c" and "\<not> IsSpace c"
  shows "NextToken t =
           Inr (Some \<lparr>tok_kind = TokenKindSingleChar, tok_value = [c], tok_location = tz_location t\<rparr>,
                seek t [c])"
proof -
  have s: "skipWhitespace t = t" using assms(1,3) by (rule skipWhitespace_none)
  have p: "peek t = Some c" using assms(1) by (rule peek_unread)
  have a: "advance t = (Some c, seek t [c])" using assms(1) by (rule advance_unread)
  show ?thesis using s p a assms(2) by (simp add: NextToken_def)
qed

lemma NextToken_string:
  assumes "unread t = quote # K @ quote # rest" and "quote \<notin> set K" and "backslash \<notin> set K"
      and "\<not> isSingleChar t quote"
  shows "NextToken t =
           Inr (Some \<lparr>tok_kind = TokenKindString, tok_value = K, tok_location = tz_location t\<rparr>,
                seek t (quote # K @ [quote]))"
proof -
  have sp: "\<not> IsSpace quote" by (simp add: IsSpace_def)
  have s: "skipWhitespace t = t" using assms(1) sp by (rule skipWhitespace_none)
  have p: "peek t = Some quote" using assms(1) by (rule peek_unread)
  have a: "advance t = (Some quote, seek t [quote])" using assms(1) by (rule advance_unread)
  have u: "unread (seek t [quote]) = K @ quote # rest"
    using unread_seek [of t "[quote]" "K @ quote # rest"] assms(1) by simp
  have "string_loop (seek t [quote]) [] = Inr ([] @ K, seek (seek t [quote]) (K @ [quote]))"
    using u assms(2,3) by (rule string_loop_plain)
  then have l: "string_loop (seek t [quote]) [] = Inr (K, seek t (quote # K @ [quote]))"
    by (simp add: seek_seek)
  show ?thesis using s p a l assms(4) by (simp add: NextToken_def)
qed

lemma standard_seek [simp]: "standard (seek t pre) = standard t"
  by (simp add: standard_def)

lemma standard_single:
  "standard t \<Longrightarrow> isSingleChar t c = (c = lparen \<or> c = rparen \<or> c = lbrace \<or> c = rbrace \<or> c = comma)"
  by (auto simp: standard_def isSingleChar_def)

lemma parse_one_string:
  assumes "unread t = lparen # quote # K @ quote # rparen # rest"
      and "quote \<notin> set K" and "backslash \<notin> set K" and "standard t"
  shows "parseFunctionArgs t loc =
           Inr ([\<lparr>tok_kind = TokenKindString, tok_value = K,
                   tok_location = loc_after (tz_location t) [lparen]\<rparr>],
                seek t (lparen # quote # K @ [quote, rparen]))"
proof -
  let ?t1 = "seek t [lparen]"
  let ?t2 = "seek ?t1 (quote # K @ [quote])"
  let ?arg = "\<lparr>tok_kind = TokenKindString, tok_value = K,
               tok_location = advance_loc (tz_location t) lparen\<rparr>"
  have sp: "\<not> IsSpace lparen" "\<not> IsSpace rparen" by (simp_all add: IsSpace_def)
  have n1: "NextToken t =
      Inr (Some \<lparr>tok_kind = TokenKindSingleChar, tok_value = [lparen], tok_location = tz_location t\<rparr>, ?t1)"
    using assms(1,4) sp by (intro NextToken_single) (simp_all add: standard_single)
  have u1: "unread ?t1 = quote # K @ quote # rparen # rest"
    using unread_seek [of t "[lparen]"] assms(1) by simp
  have "NextToken ?t1 =
      Inr (Some \<lparr>tok_kind = TokenKindString, tok_value = K, tok_location = tz_location ?t1\<rparr>, ?t2)"
    using u1 assms(2,3,4) by (intro NextToken_string) (simp_all add: standard_single)
  then have n2: "NextToken ?t1 = Inr (Some ?arg, ?t2)" by simp
  have u2: "unread ?t2 = rparen # rest"
    using unread_seek [of ?t1 "quote # K @ [quote]" "rparen # rest"] u1 by simp
  have n3: "NextToken ?t2 =
      Inr (Some \<lparr>tok_kind = TokenKindSingleChar, tok_value = [rparen], tok_location = tz_location ?t2\<rparr>,
           seek ?t2 [rparen])"
    using u2 assms(4) sp by (intro NextToken_single) (simp_all add: standard_single)
  have m1: "mustNextToken t loc =
      Inr (\<lparr>tok_kind = TokenKindSingleChar, tok_value = [lparen], tok_location = tz_location t\<rparr>, ?t1)"
    unfolding mustNextToken_def n1 by simp
  have m2: "mustNextToken ?t1 loc = Inr (?arg, ?t2)"
    unfolding mustNextToken_def n2 by simp
  have m3: "mustNextToken ?t2 loc =
      Inr (\<lparr>tok_kind = TokenKindSingleChar, tok_value = [rparen], tok_location = tz_location ?t2\<rparr>,
           seek ?t2 [rparen])"
    unfolding mustNextToken_def n3 by simp
  have loop: "args_loop ?t2 loc [?arg] = Inr ([?arg], seek ?t2 [rparen])"
    by (subst args_loop.simps, unfold m3) (simp add: IsSingleChar_def)
  have "parseFunctionArgs t loc = Inr ([?arg], seek ?t2 [rparen])"
    unfolding parseFunctionArgs_def m1 by (simp add: IsSingleChar_def m2 loop del: args_loop.simps)
  then show ?thesis by (simp add: seek_seek)
qed

lemma parse_no_args:
  assumes "unread t = lparen # rparen # rest" and "standard t"
  shows "parseFunctionArgs t loc = Inr ([], seek t [lparen, rparen])"
proof -
  let ?t1 = "seek t [lparen]"
  have sp: "\<not> IsSpace lparen" "\<not> IsSpace rparen" by (simp_all add: IsSpace_def)
  have n1: "NextToken t =
      Inr (Some \<lparr>tok_kind = TokenKindSingleChar, tok_value = [lparen], tok_location = tz_location t\<rparr>, ?t1)"
    using assms sp by (intro NextToken_single) (simp_all add: standard_single)
  have u1: "unread ?t1 = rparen # rest"
    using unread_seek [of t "[lparen]"] assms(1) by simp
  have n2: "NextToken ?t1 =
      Inr (Some \<lparr>tok_kind = TokenKindSingleChar, tok_value = [rparen], tok_location = tz_location ?t1\<rparr>,
           seek ?t1 [rparen])"
    using u1 assms(2) sp by (intro NextToken_single) (simp_all add: standard_single)
  have m1: "mustNextToken t loc =
      Inr (\<lparr>tok_kind = TokenKindSingleChar, tok_value = [lparen], tok_location = tz_location t\<rparr>, ?t1)"
    unfolding mustNextToken_def n1 by simp
  have m2: "mustNextToken ?t1 loc =
      Inr (\<lparr>tok_kind = TokenKindSingleChar, tok_value = [rparen], tok_location = tz_location ?t1\<rparr>,
           seek ?t1 [rparen])"
    unfolding mustNextToken_def n2 by simp
  have "parseFunctionArgs t loc = Inr ([], seek ?t1 [rparen])"
    unfolding parseFunctionArgs_def m1 by (simp add: IsSingleChar_def m2)
  then show ?thesis by (simp add: seek_seek)
qed

lemma first_word:
  assumes "name \<noteq> []" and "\<forall>c \<in> set name. \<not> IsSpace c \<and> c \<noteq> quote \<and>
             c \<noteq> lparen \<and> c \<noteq> rparen \<and> c \<noteq> lbrace \<and> c \<noteq> rbrace \<and> c \<noteq> comma"
  shows "NextToken (NewTokenizer (name @ lparen # rest) loc) =
           Inr (Some \<lparr>tok_kind = TokenKindWord, tok_value = name, tok_location = loc\<rparr>,
                seek (NewTokenizer (name @ lparen # rest) loc) name)"
proof -
  let ?t = "NewTokenizer (name @ lparen # rest) loc"
  obtain k w where name: "name = k # w" using assms(1) by (cases name) auto
  have st: "standard ?t" by (simp add: standard_def NewTokenizer_def)
  have u: "unread ?t = k # w @ lparen # rest" by (simp add: unread_def NewTokenizer_def name)
  have w: "\<forall>c \<in> set (k # w). word_rune ?t c"
    using assms(2) name st by (auto simp: word_rune_def standard_single)
  have d: "\<not> word_rune ?t lparen" using st by (simp add: word_rune_def standard_single)
  have "tz_location ?t = loc" by (simp add: NewTokenizer_def)
  with NextToken_word [OF u w d] name show ?thesis by simp
qed

lemma no_backslash:
  "backslash \<notin> set c \<Longrightarrow>
   unescape c = c \<and> \<not> dangling c \<and> (no_unescaped stop c \<longleftrightarrow> stop \<notin> set c)"
  by (induction c) auto

lemma single_block:
  assumes "backslash \<notin> set code" and "rbrace \<notin> set code"
  shows "NewTemplateFromString loc (lbrace # code @ [rbrace]) ctx =
           Inr [TemplateTextPortion [], TemplateCodePortion ctx (advance_loc loc lbrace) code]"
proof -
  let ?s0 = "initial_state loc"
  have c: "unescape code = code" "\<not> dangling code" "no_unescaped rbrace code"
    using no_backslash [OF assms(1), of rbrace] assms(2) by simp_all
  have "template_loop ctx ?s0 (lbrace # code @ rbrace # []) =
        template_loop ctx (after_block ctx ?s0 code) []"
    using c(3,2) by (intro template_loop_block) (simp add: initial_state_def)
  then have "template_loop ctx ?s0 (lbrace # code @ [rbrace]) = after_block ctx ?s0 code"
    by simp
  then show ?thesis
    by (simp add: NewTemplateFromString_def after_block_def initial_state_def c(1))
qed

lemma render_single_block:
  "Template_Render env g [TemplateTextPortion [], TemplateCodePortion ctx loc code] =
   TemplateCodePortion_Render env g ctx loc code"
  by (cases "TemplateCodePortion_Render env g ctx loc code")
     (auto simp: Template_Render_def split: sum.splits)


lemma content_call:
  "TemplateCodePortion_Render env g ctx loc (to_runes ''content'' @ [lparen, rparen]) =
     (Inr (Content ctx), g)"
  "quote \<notin> set K \<Longrightarrow> backslash \<notin> set K \<Longrightarrow>
   TemplateCodePortion_Render env g ctx loc
     (to_runes ''content'' @ lparen # quote # K @ [quote, rparen]) =
     (Inl (ErrTemplateIncorrectArgsCount loc (to_runes ''content'')), g)"
proof -
  let ?tok = "\<lparr>tok_kind = TokenKindWord, tok_value = to_runes ''content'', tok_location = loc\<rparr>"
  have ne: "to_runes ''content'' \<noteq> to_runes ''var''" by (simp add: to_runes_def)
  show "TemplateCodePortion_Render env g ctx loc (to_runes ''content'' @ [lparen, rparen]) =
     (Inr (Content ctx), g)"
  proof -
    let ?code = "to_runes ''content'' @ [lparen, rparen]"
    let ?t0 = "NewTokenizer ?code loc"
    let ?t1 = "seek ?t0 (to_runes ''content'')"
    have n: "NextToken ?t0 = Inr (Some ?tok, ?t1)"
      using first_word [of "to_runes ''content''" "[rparen]" loc]
      by (simp add: to_runes_def IsSpace_def)
    have u: "unread ?t1 = lparen # rparen # []"
      using unread_seek [of ?t0 "to_runes ''content''" "[lparen, rparen]"]
      by (simp add: unread_def NewTokenizer_def)
    have st: "standard ?t1" by (simp add: standard_def NewTokenizer_def)
    note p = parse_no_args [OF u st, of loc]
    have "TemplateCodePortion_Render env g ctx loc ?code = (renderContent ctx loc ?t1 ?tok, g)"
      unfolding TemplateCodePortion_Render_def Let_def n using ne by (simp add: IsWord_def)
    also have "renderContent ctx loc ?t1 ?tok = Inr (Content ctx)"
      unfolding renderContent_def p by simp
    finally show ?thesis .
  qed
  assume K: "quote \<notin> set K" "backslash \<notin> set K"
  let ?code = "to_runes ''content'' @ lparen # quote # K @ [quote, rparen]"
  let ?t0 = "NewTokenizer ?code loc"
  let ?t1 = "seek ?t0 (to_runes ''content'')"
  have n: "NextToken ?t0 = Inr (Some ?tok, ?t1)"
    by (intro first_word) (simp_all add: to_runes_def IsSpace_def)
  have u: "unread ?t1 = lparen # quote # K @ quote # rparen # []"
    using unread_seek [of ?t0 "to_runes ''content''" "lparen # quote # K @ [quote, rparen]"]
    by (simp add: unread_def NewTokenizer_def)
  have st: "standard ?t1" by (simp add: standard_def NewTokenizer_def)
  note p = parse_one_string [OF u K st, of loc]
  have "TemplateCodePortion_Render env g ctx loc ?code = (renderContent ctx loc ?t1 ?tok, g)"
    unfolding TemplateCodePortion_Render_def Let_def n using ne by (simp add: IsWord_def)
  also have "renderContent ctx loc ?t1 ?tok =
      Inl (ErrTemplateIncorrectArgsCount loc (to_runes ''content''))"
    unfolding renderContent_def p by (simp add: errIncorrectArgsCount_def)
  finally show "TemplateCodePortion_Render env g ctx loc ?code =
     (Inl (ErrTemplateIncorrectArgsCount loc (to_runes ''content'')), g)" .
qed

subsection \<open>The header scan\<close>

lemma scan_header_Nil [simp]: "scan_header st [] = st"
  by (simp add: scan_header_def)

lemma scan_header_Cons [simp]: "scan_header st (r # p) = scan_header (header_step st r) p"
  by (simp add: scan_header_def)

lemma scan_header_snoc: "scan_header st (p @ [r]) = header_step (scan_header st p) r"
  by (simp add: scan_header_def)

lemma header_loop_split:
  "header_loop st hdr loc rest = (h, loc', body) \<Longrightarrow>
   \<exists>k \<le> length rest.
     h = hdr @ take k rest \<and> body = drop k rest \<and> loc' = loc_after loc (take k rest) \<and>
     (rest \<noteq> [] \<longrightarrow> 0 < k) \<and>
     (\<forall>j. 0 < j \<and> j < k \<longrightarrow> \<not> header_done (scan_header st (take j rest))) \<and>
     (k < length rest \<longrightarrow> header_done (scan_header st (take k rest)))"
proof (induction st hdr loc rest arbitrary: h loc' body rule: header_loop.induct)
  case (1 st jsonHeader loc)
  then show ?case by simp
next
  case (2 st jsonHeader loc r rest)
  let ?st = "header_step st r"
  show ?case
  proof (cases "header_done ?st")
    case True
    then have d: "\<not> inString ?st \<and> bracketBalance ?st = 0"
      by (simp add: header_done_def)
    with 2(2) have "h = jsonHeader @ [r]" "body = rest" "loc' = advance_loc loc r"
      by (simp_all add: Let_def)
    with True show ?thesis
      by (intro exI [of _ 1]) simp
  next
    case False
    then have nd: "\<not> (\<not> inString ?st \<and> bracketBalance ?st = 0)"
      by (simp add: header_done_def)
    with 2(2) have run: "header_loop ?st (jsonHeader @ [r]) (advance_loc loc r) rest = (h, loc', body)"
      by (simp add: Let_def)
    from 2(1) [OF refl refl refl nd run]
    obtain k where k: "k \<le> length rest" "h = (jsonHeader @ [r]) @ take k rest"
      "body = drop k rest" "loc' = loc_after (advance_loc loc r) (take k rest)"
      "\<forall>j. 0 < j \<and> j < k \<longrightarrow> \<not> header_done (scan_header ?st (take j rest))"
      "k < length rest \<longrightarrow> header_done (scan_header ?st (take k rest))"
      by (auto simp: header_done_def)
    have "\<forall>j. 0 < j \<and> j < Suc k \<longrightarrow> \<not> header_done (scan_header st (take j (r # rest)))"
    proof (intro allI impI)
      fix j assume j: "0 < j \<and> j < Suc k"
      then obtain i where i: "j = Suc i" by (cases j) auto
      show "\<not> header_done (scan_header st (take j (r # rest)))"
      proof (cases i)
        case 0
        with i False show ?thesis by simp
      next
        case (Suc n)
        with i j k(5) show ?thesis by simp
      qed
    qed
    with k show ?thesis
      by (intro exI [of _ "Suc k"]) simp
  qed
qed

lemma header_step_balance:
  "bracketBalance (header_step st r) \<noteq> bracketBalance st \<Longrightarrow>
   \<not> inString st \<and> \<not> escaped st \<and> \<not> inString (header_step st r) \<and>
   (r = lbrace \<and> bracketBalance (header_step st r) = bracketBalance st + 1 \<or>
    r = rbrace \<and> bracketBalance (header_step st r) = bracketBalance st - 1)"
  by (auto simp: header_step_def split: if_splits)

lemma header_step_escaped:
  "escaped (header_step st r) \<Longrightarrow> \<not> escaped st \<and> inString st \<and> r = backslash"
  by (auto simp: header_step_def split: if_splits)

lemma header_step_transient: "escaped st \<Longrightarrow> \<not> escaped (header_step st r)"
  by (simp add: header_step_def)

text \<open>
  While no non-empty prefix has brought the scanner back to depth zero outside a string,
  the depth of a text that starts with an opening brace stays positive.
\<close>

lemma depth_positive:
  assumes "\<forall>j. 0 < j \<and> j \<le> Suc (length p) \<longrightarrow>
             \<not> header_done (scan_header header_start (take j (lbrace # p)))"
  shows "1 \<le> bracketBalance (scan_header header_start (lbrace # p))"
  using assms
proof (induction p rule: rev_induct)
  case Nil
  then show ?case by (simp add: header_start_def header_step_def)
next
  case (snoc r p)
  let ?s = "scan_header header_start (lbrace # p)"
  have "\<forall>j. 0 < j \<and> j \<le> Suc (length p) \<longrightarrow>
          \<not> header_done (scan_header header_start (take j (lbrace # p)))"
  proof (intro allI impI)
    fix j assume j: "0 < j \<and> j \<le> Suc (length p)"
    then have "take j (lbrace # p @ [r]) = take j (lbrace # p)"
      by (cases j) simp_all
    moreover from j have "0 < j \<and> j \<le> Suc (length (p @ [r]))" by simp
    ultimately show "\<not> header_done (scan_header header_start (take j (lbrace # p)))"
      using snoc(2) by metis
  qed
  then have ih: "1 \<le> bracketBalance ?s" by (rule snoc(1))
  have last: "scan_header header_start (lbrace # p @ [r]) = header_step ?s r"
    using scan_header_snoc [of header_start "lbrace # p" r] by simp
  have "take (Suc (length (p @ [r]))) (lbrace # p @ [r]) = lbrace # p @ [r]" by simp
  moreover have "0 < Suc (length (p @ [r])) \<and> Suc (length (p @ [r])) \<le> Suc (length (p @ [r]))"
    by simp
  ultimately have "\<not> header_done (scan_header header_start (lbrace # p @ [r]))"
    using snoc(2) by metis
  then have nd: "\<not> header_done (header_step ?s r)" using last by simp
  show ?case
  proof (cases "bracketBalance (header_step ?s r) = bracketBalance ?s")
    case True
    with ih last show ?thesis by simp
  next
    case False
    from header_step_balance [OF False] nd ih last show ?thesis
      by (auto simp: header_done_def)
  qed
qed

lemma closing_brace:
  assumes "\<forall>j. 0 < j \<and> j < length h \<longrightarrow>
             \<not> header_done (scan_header header_start (take j h))"
      and "header_done (scan_header header_start h)"
      and "h = lbrace # p"
  shows "last h = rbrace"
proof (cases p rule: rev_cases)
  case Nil
  with assms(2,3) show ?thesis
    by (simp add: header_done_def header_start_def header_step_def)
next
  case (snoc q r)
  let ?s = "scan_header header_start (lbrace # q)"
  have "\<forall>j. 0 < j \<and> j \<le> Suc (length q) \<longrightarrow>
          \<not> header_done (scan_header header_start (take j (lbrace # q)))"
  proof (intro allI impI)
    fix j assume j: "0 < j \<and> j \<le> Suc (length q)"
    then have "take j h = take j (lbrace # q)"
      using assms(3) snoc by (cases j) simp_all
    moreover from j have "0 < j \<and> j < length h" using assms(3) snoc by simp
    ultimately show "\<not> header_done (scan_header header_start (take j (lbrace # q)))"
      using assms(1) by metis
  qed
  then have pos: "1 \<le> bracketBalance ?s" by (rule depth_positive)
  have last: "scan_header header_start h = header_step ?s r"
    using scan_header_snoc [of header_start "lbrace # q" r] assms(3) snoc by simp
  with assms(2) have z: "bracketBalance (header_step ?s r) = 0" by (simp add: header_done_def)
  with pos have "bracketBalance (header_step ?s r) \<noteq> bracketBalance ?s" by simp
  from header_step_balance [OF this] z pos have "r = rbrace" by auto
  with assms(3) snoc show ?thesis by simp
qed

text \<open>
  What the first loop of \<^verbatim>\<open>NewTemplateInputFromString\<close> computes: the header is a prefix
  of the content, not empty unless the content is, and the shortest non-empty prefix that
  leaves the scan outside a string at depth zero when there is one; the rest is compiled
  at the location reached. The scan knows strings and escapes, and nothing else.
\<close>

lemma header_split:
  assumes "header_loop header_start [] loc textContent = (h, loc', body)"
  shows "h @ body = textContent \<and> loc' = loc_after loc h \<and>
         (textContent \<noteq> [] \<longrightarrow> h \<noteq> []) \<and>
         (\<forall>j. 0 < j \<and> j < length h \<longrightarrow>
              \<not> header_done (scan_header header_start (take j textContent))) \<and>
         (body \<noteq> [] \<longrightarrow> header_done (scan_header header_start h)) \<and>
         ((\<exists>p. textContent = lbrace # p) \<and> header_done (scan_header header_start h) \<longrightarrow>
            last h = rbrace) \<and>
         (\<forall>st r. escaped (header_step st r) \<longrightarrow> inString st \<and> \<not> escaped st \<and> r = backslash) \<and>
         (\<forall>st r. escaped st \<longrightarrow> \<not> escaped (header_step st r)) \<and>
         (\<forall>st r. bracketBalance (header_step st r) \<noteq> bracketBalance st \<longrightarrow>
              \<not> inString st \<and> \<not> escaped st \<and> (r = lbrace \<or> r = rbrace)) \<and>
         NewTemplateInputFromString env loc textContent staticDir =
           (case UnmarshalJsonWithComments env h of
              Inl err \<Rightarrow> Inl (ErrInvalidJsonHeader (path loc))
            | Inr vars \<Rightarrow>
                (case NewTemplateFromString loc' body
                        \<lparr>StaticDir = staticDir, Content = to_runes ''[content()]'',
                         Variables = vars\<rparr> of
                   Inl err \<Rightarrow> Inl err
                 | Inr t \<Rightarrow> Inr \<lparr>variables = vars, content = t\<rparr>))"
proof -
  from header_loop_split [OF assms]
  obtain k where k: "k \<le> length textContent" "h = take k textContent" "body = drop k textContent"
    "loc' = loc_after loc (take k textContent)" "textContent \<noteq> [] \<longrightarrow> 0 < k"
    "\<forall>j. 0 < j \<and> j < k \<longrightarrow> \<not> header_done (scan_header header_start (take j textContent))"
    "k < length textContent \<longrightarrow> header_done (scan_header header_start (take k textContent))"
    by auto
  have len: "length h = k" using k(1,2) by simp
  have p1: "h @ body = textContent" using k(2,3) by simp
  have p2: "loc' = loc_after loc h" using k(2,4) by simp
  have p3: "textContent \<noteq> [] \<longrightarrow> h \<noteq> []" using k(1,2,5) by auto
  have p4: "\<forall>j. 0 < j \<and> j < length h \<longrightarrow>
              \<not> header_done (scan_header header_start (take j textContent))"
    using k(6) len by simp
  have p5: "body \<noteq> [] \<longrightarrow> header_done (scan_header header_start h)"
    using k(1,2,3,7) by auto
  have p6: "(\<exists>p. textContent = lbrace # p) \<and> header_done (scan_header header_start h) \<longrightarrow>
            last h = rbrace"
  proof (intro impI, elim conjE exE)
    fix p assume c: "textContent = lbrace # p" and d: "header_done (scan_header header_start h)"
    from c k(5) have "0 < k" by simp
    with c k(2) obtain q where q: "h = lbrace # q" by (cases k) simp_all
    have "\<forall>j. 0 < j \<and> j < length h \<longrightarrow> \<not> header_done (scan_header header_start (take j h))"
    proof (intro allI impI)
      fix j assume j: "0 < j \<and> j < length h"
      then have "take j h = take j textContent" using k(2) len by (simp add: min_def)
      with p4 j show "\<not> header_done (scan_header header_start (take j h))" by simp
    qed
    then show "last h = rbrace" using d q by (rule closing_brace)
  qed
  have p7: "\<forall>st r. escaped (header_step st r) \<longrightarrow> inString st \<and> \<not> escaped st \<and> r = backslash"
    using header_step_escaped by blast
  have p8: "\<forall>st r. escaped st \<longrightarrow> \<not> escaped (header_step st r)"
    using header_step_transient by blast
  have p9: "\<forall>st r. bracketBalance (header_step st r) \<noteq> bracketBalance st \<longrightarrow>
              \<not> inString st \<and> \<not> escaped st \<and> (r = lbrace \<or> r = rbrace)"
    using header_step_balance by blast
  have p10: "NewTemplateInputFromString env loc textContent staticDir =
           (case UnmarshalJsonWithComments env h of
              Inl err \<Rightarrow> Inl (ErrInvalidJsonHeader (path loc))
            | Inr vars \<Rightarrow>
                (case NewTemplateFromString loc' body
                        \<lparr>StaticDir = staticDir, Content = to_runes ''[content()]'',
                         Variables = vars\<rparr> of
                   Inl err \<Rightarrow> Inl err
                 | Inr t \<Rightarrow> Inr \<lparr>variables = vars, content = t\<rparr>))"
    using assms by (simp add: NewTemplateInputFromString_def header_start_def)
  from p1 p2 p3 p4 p5 p6 p7 p8 p9 p10 show ?thesis by blast
qed

subsection \<open>Comment stripping\<close>

lemma closes_sublist: "closes cm \<longleftrightarrow> sublist [star, slash] cm"
proof (induction cm rule: closes.induct)
  case (1 x y rest)
  have "sublist [star, slash] (x # y # rest) \<longleftrightarrow>
        prefix [star, slash] (x # y # rest) \<or> sublist [star, slash] (y # rest)"
    by (rule sublist_Cons_right)
  with 1 show ?case by auto
qed (simp_all add: sublist_Cons_right)

lemma block_end_closed: "\<not> closes cm \<Longrightarrow> block_end (cm @ star # slash # rest) = Some rest"
proof (induction cm rule: closes.induct)
  case (1 x y rest')
  then show ?case by auto
qed simp_all

lemma block_end_unclosed: "\<not> closes body \<Longrightarrow> block_end body = None"
  by (induction body rule: closes.induct) auto

lemma remove_step_outside:
  "c \<noteq> quote \<Longrightarrow> c \<noteq> slash \<Longrightarrow>
   remove_loop False False out (c # rest) = remove_loop False False (out @ [c]) rest"
  by (simp add: comment_step_def)

lemma remove_step_open:
  "remove_loop False False out (quote # rest) = remove_loop True False (out @ [quote]) rest"
  by (simp add: comment_step_def)

lemma remove_step_close:
  "remove_loop True False out (quote # rest) = remove_loop False False (out @ [quote]) rest"
  by (simp add: comment_step_def)

lemma remove_step_inside:
  "c \<noteq> quote \<Longrightarrow> c \<noteq> backslash \<Longrightarrow>
   remove_loop True False out (c # rest) = remove_loop True False (out @ [c]) rest"
  by (simp add: comment_step_def)

lemma remove_step_escape:
  "remove_loop True False out (backslash # d # rest) = remove_loop True False (out @ [backslash, d]) rest"
  by (simp add: comment_step_def)

lemma remove_step_line:
  "remove_loop False False out (slash # slash # rest) =
   remove_loop False False out (dropWhile (\<lambda>x. x \<noteq> newline \<and> x \<noteq> carriage_return) rest)"
  by (simp add: comment_step_def)

lemma remove_step_block:
  "remove_loop False False out (slash # star # rest) =
   (case block_end rest of
      None \<Rightarrow> Inl ErrUnclosedComment
    | Some rest' \<Rightarrow> remove_loop False False out rest')"
  by (simp add: comment_step_def)

lemma remove_loop_Nil: "remove_loop inStr esc out [] = Inr out"
  by simp

declare remove_loop.simps [simp del]

lemma remove_plain:
  "quote \<notin> set p \<Longrightarrow> slash \<notin> set p \<Longrightarrow>
   remove_loop False False out (p @ rest) = remove_loop False False (out @ p) rest"
  by (induction p arbitrary: out) (simp_all add: remove_step_outside)

lemma remove_in_string:
  "string_body b \<Longrightarrow>
   remove_loop True False out (b @ quote # rest) = remove_loop False False (out @ b @ [quote]) rest"
proof (induction b arbitrary: out rule: string_body.induct)
  case 1
  then show ?case by (simp add: remove_step_close)
next
  case (2 c cs)
  show ?case
  proof (cases "c = backslash")
    case True
    with 2(3) obtain d ds where cs: "cs = d # ds" and body: "string_body ds"
      by (cases cs) auto
    from 2(1) [OF True cs body]
    have "remove_loop True False (out @ [backslash, d]) (ds @ quote # rest) =
          remove_loop False False ((out @ [backslash, d]) @ ds @ [quote]) rest" .
    with True cs show ?thesis by (simp add: remove_step_escape)
  next
    case False
    with 2(3) have nq: "c \<noteq> quote" and body: "string_body cs" by auto
    from 2(2) [OF False body]
    have "remove_loop True False (out @ [c]) (cs @ quote # rest) =
          remove_loop False False ((out @ [c]) @ cs @ [quote]) rest" .
    with False nq show ?thesis by (simp add: remove_step_inside)
  qed
qed

lemma remove_string:
  "string_body b \<Longrightarrow>
   remove_loop False False out (quote # b @ quote # rest) =
   remove_loop False False (out @ quote # b @ [quote]) rest"
  using remove_in_string [of b "out @ [quote]" rest] by (simp add: remove_step_open)

lemma remove_line:
  assumes "newline \<notin> set cm" and "carriage_return \<notin> set cm"
      and "eol = newline \<or> eol = carriage_return"
  shows "remove_loop False False out (slash # slash # cm @ eol # rest) =
         remove_loop False False (out @ [eol]) rest"
proof -
  have "dropWhile (\<lambda>x. x \<noteq> newline \<and> x \<noteq> carriage_return) (cm @ eol # rest)
      = eol # rest"
    using assms by (induction cm) auto
  moreover have "eol \<noteq> quote" "eol \<noteq> slash" using assms(3) by auto
  ultimately show ?thesis by (simp add: remove_step_line remove_step_outside)
qed

lemma remove_line_end:
  assumes "newline \<notin> set cm" and "carriage_return \<notin> set cm"
  shows "remove_loop False False out (slash # slash # cm) = Inr out"
proof -
  have d: "dropWhile (\<lambda>x. x \<noteq> newline \<and> x \<noteq> carriage_return) cm = []"
    using assms by (induction cm) auto
  show ?thesis unfolding remove_step_line d by (rule remove_loop_Nil)
qed

lemma remove_block:
  "\<not> closes cm \<Longrightarrow>
   remove_loop False False out (slash # star # cm @ star # slash # rest) =
   remove_loop False False out rest"
  by (simp add: remove_step_block block_end_closed)

lemma remove_unclosed:
  "\<not> closes body \<Longrightarrow> remove_loop False False out (slash # star # body) = Inl ErrUnclosedComment"
  by (simp add: remove_step_block block_end_unclosed)

lemma remove_segment:
  "wf_segment s \<Longrightarrow>
   remove_loop False False out (segment_text s @ rest) =
   remove_loop False False (out @ segment_kept s) rest"
  by (cases s) (simp_all add: remove_plain remove_string remove_line remove_block)

lemma remove_segments:
  "\<forall>s \<in> set segs. wf_segment s \<Longrightarrow>
   remove_loop False False out (concat (map segment_text segs) @ rest) =
   remove_loop False False (out @ concat (map segment_kept segs)) rest"
proof (induction segs arbitrary: out)
  case Nil
  then show ?case by simp
next
  case (Cons s segs)
  then show ?case by (simp add: remove_segment)
qed

section \<open>The claims about the template compiler\<close>



text \<open>
  Claim C5, as stated, fails: the location stored in a code portion is not the position
  of the opening brace. For the text \<^verbatim>\<open>{x}\<close> starting at row 1, column 1, the brace is
  at column 1 and the portion stores column 2.
\<close>

theorem code_portion_location_counterexample:
  "NewTemplateFromString demo_loc (to_runes ''{x}'')
     demo_ctx =
   Inr [TemplateTextPortion [],
        TemplateCodePortion demo_ctx
          \<lparr>path = to_runes ''page'', row = 1, column = 2\<rparr> (to_runes ''x'')] \<and>
   loc_after demo_loc [] \<noteq>
     \<lparr>path = to_runes ''page'', row = 1, column = 2\<rparr>"
  by (simp add: NewTemplateFromString_def initial_state_def to_runes_def advance_loc_def demo_loc_def)

text \<open>
  Claim C5, amended. \<^verbatim>\<open>codeModeLocation\<close> is taken after \<^verbatim>\<open>advance()\<close> has moved
  over the brace, so every code block \<open>{c}\<close> of the text compiles to a code portion whose
  location is the position immediately after the opening brace: the brace's row, the
  brace's column plus one, which is the position of the first rune of the code. The
  portion follows the portions compiled from the text before the block and the text
  portion flushed at the brace. \<^verbatim>\<open>TemplateCodePortion.Render\<close> starts its tokenizer at
  this location.
\<close>

theorem code_portion_location:
  assumes "\<not> dangling pre" and "\<not> scan_mode False pre"
      and "no_unescaped rbrace c" and "\<not> dangling c"
      and "NewTemplateFromString loc (pre @ lbrace # c @ rbrace # rest) ctx = Inr ps"
  shows "\<exists>ts. ps = portions (template_loop ctx (initial_state loc) pre) @
                   TemplateTextPortion (accumulatedText (template_loop ctx (initial_state loc) pre)) #
                   TemplateCodePortion ctx
                     ((loc_after loc pre)\<lparr>column := column (loc_after loc pre) + 1\<rparr>)
                     (unescape c) # ts"
proof -
  have "loc_after loc (pre @ [lbrace]) =
        (loc_after loc pre)\<lparr>column := column (loc_after loc pre) + 1\<rparr>"
    by (simp add: loc_after_append advance_loc_def)
  with compile_block [OF assms] show ?thesis by simp
qed

theorem code_portion_location_witness:
  "\<not> dangling (to_runes ''ab'') \<and> \<not> scan_mode False (to_runes ''ab'') \<and>
   no_unescaped rbrace (to_runes ''x'') \<and> \<not> dangling (to_runes ''x'') \<and>
   NewTemplateFromString demo_loc
     (to_runes ''ab'' @ lbrace # to_runes ''x'' @ rbrace # to_runes ''z'')
     demo_ctx =
   Inr [TemplateTextPortion (to_runes ''ab''),
        TemplateCodePortion demo_ctx
          \<lparr>path = to_runes ''page'', row = 1, column = 4\<rparr> (to_runes ''x''),
        TemplateTextPortion (to_runes ''z'')] \<and>
   (\<exists>ts. [TemplateTextPortion (to_runes ''ab''),
         TemplateCodePortion demo_ctx
           \<lparr>path = to_runes ''page'', row = 1, column = 4\<rparr> (to_runes ''x''),
         TemplateTextPortion (to_runes ''z'')] =
      portions (template_loop demo_ctx
                 (initial_state demo_loc) (to_runes ''ab'')) @
      TemplateTextPortion (accumulatedText
          (template_loop demo_ctx
             (initial_state demo_loc) (to_runes ''ab''))) #
      TemplateCodePortion demo_ctx
        ((loc_after demo_loc (to_runes ''ab''))
           \<lparr>column := column (loc_after demo_loc
                                  (to_runes ''ab'')) + 1\<rparr>)
        (unescape (to_runes ''x'')) # ts)"
  using code_portion_location
    [of "to_runes ''ab''" "to_runes ''x''" demo_loc
        "to_runes ''z''" demo_ctx
        "[TemplateTextPortion (to_runes ''ab''),
          TemplateCodePortion demo_ctx
            \<lparr>path = to_runes ''page'', row = 1, column = 4\<rparr> (to_runes ''x''),
          TemplateTextPortion (to_runes ''z'')]"]
  by (simp add: NewTemplateFromString_def initial_state_def to_runes_def advance_loc_def demo_loc_def)

text \<open>
  Claim C6, as stated, fails at a backslash that is itself escaped. In the text made of
  two backslashes and \<^verbatim>\<open>{x}\<close> the second rune is a backslash; it is not dropped but emitted, and the brace after it is
  not emitted literally but opens a code block.
\<close>

theorem backslash_escape_counterexample:
  "NewTemplateFromString demo_loc
     ([backslash, backslash, lbrace] @ to_runes ''x}'')
     demo_ctx =
   Inr [TemplateTextPortion [backslash],
        TemplateCodePortion demo_ctx
          \<lparr>path = to_runes ''page'', row = 1, column = 4\<rparr> (to_runes ''x'')]"
  by (simp add: NewTemplateFromString_def initial_state_def to_runes_def advance_loc_def demo_loc_def)

text \<open>
  Claim C6, amended. For every backslash of the text that is not itself escaped by the
  backslash before it (\<open>\<not> dangling pre\<close>, where \<open>pre\<close> is the text before it) and that has
  a next rune: the scan continues after that next rune, with the next rune appended to the
  accumulated text and nothing else changed but the location; the backslash is dropped
  and the next rune is never interpreted, whatever it is. A backslash that is the last
  rune of the text is the last rune of the accumulated text, and when the compilation
  succeeds it is the last rune of the last text portion.
\<close>

theorem backslash_escape:
  "(\<not> dangling pre \<longrightarrow>
      template_loop ctx (initial_state loc) (pre @ backslash # next # rest) =
        template_loop ctx
          ((template_loop ctx (initial_state loc) pre)
             \<lparr>location := loc_after loc (pre @ [backslash, next]),
              accumulatedText :=
                accumulatedText (template_loop ctx (initial_state loc) pre) @ [next]\<rparr>) rest) \<and>
   (\<exists>t. accumulatedText (template_loop ctx (initial_state loc) (pre @ [backslash])) =
          t @ [backslash]) \<and>
   (\<forall>ps. NewTemplateFromString loc (pre @ [backslash]) ctx = Inr ps \<longrightarrow>
      (\<exists>qs t. ps = qs @ [TemplateTextPortion (t @ [backslash])]))"
proof (intro conjI impI allI)
  let ?s1 = "template_loop ctx (initial_state loc) pre"
  assume nd: "\<not> dangling pre"
  have loc1: "location ?s1 = loc_after loc pre"
    using template_loop_mode [of ctx "initial_state loc" pre] by (simp add: initial_state_def)
  have "template_loop ctx (initial_state loc) (pre @ backslash # next # rest) =
        template_loop ctx ?s1 (backslash # next # rest)"
    using nd by (rule template_loop_append)
  then show "template_loop ctx (initial_state loc) (pre @ backslash # next # rest) =
        template_loop ctx
          (?s1\<lparr>location := loc_after loc (pre @ [backslash, next]),
               accumulatedText := accumulatedText ?s1 @ [next]\<rparr>) rest"
    using loc1 by (simp add: loc_after_append)
next
  show "\<exists>t. accumulatedText (template_loop ctx (initial_state loc) (pre @ [backslash])) =
          t @ [backslash]"
    by (rule template_loop_last_backslash)
next
  fix ps
  assume ok: "NewTemplateFromString loc (pre @ [backslash]) ctx = Inr ps"
  obtain t where t: "accumulatedText (template_loop ctx (initial_state loc) (pre @ [backslash])) =
          t @ [backslash]"
    using template_loop_last_backslash by blast
  from ok t show "\<exists>qs t. ps = qs @ [TemplateTextPortion (t @ [backslash])]"
    unfolding NewTemplateFromString_def Let_def by (auto split: if_splits)
qed

theorem backslash_escape_witness:
  "\<not> dangling (to_runes ''a'') \<and>
   NewTemplateFromString demo_loc
     (to_runes ''a'' @ [backslash])
     demo_ctx =
   Inr [TemplateTextPortion (to_runes ''a'' @ [backslash])] \<and>
   template_loop demo_ctx
     (initial_state demo_loc)
     (to_runes ''a'' @ backslash # lbrace # to_runes ''b'') =
   \<lparr>portions = [], location = \<lparr>path = to_runes ''page'', row = 1, column = 5\<rparr>,
    accumulatedText = to_runes ''a{b'', codeMode = False,
    codeModeLocation = \<lparr>path = [], row = 0, column = 0\<rparr>\<rparr>"
  using backslash_escape
    [of "to_runes ''a''" demo_ctx
        demo_loc lbrace "to_runes ''b''"]
  by (simp add: NewTemplateFromString_def initial_state_def to_runes_def advance_loc_def demo_loc_def)

text \<open>
  Claim C7, as stated, fails for the empty text: it has no unescaped brace, and it compiles
  to no portion at all rather than to exactly one text portion
  (\<^verbatim>\<open>if accumulatedText != ""\<close>).
\<close>

theorem no_code_blocks_counterexample:
  "no_unescaped lbrace [] \<and>
   NewTemplateFromString demo_loc []
     demo_ctx = Inr []"
  by (simp add: NewTemplateFromString_def initial_state_def demo_loc_def)

text \<open>
  Claim C7, amended. For every text without an unescaped opening brace, the compilation
  succeeds and rendering its result returns the text with the escapes resolved, whatever the
  context and the world are; and when the text is not empty the compilation yields exactly
  one text portion, which holds the text with the escapes resolved.
\<close>

theorem no_code_blocks_roundtrip:
  assumes "no_unescaped lbrace text"
  shows "(\<exists>ps. NewTemplateFromString loc text ctx = Inr ps \<and>
               Template_Render env g ps = (Inr (unescape text), g)) \<and>
         (text \<noteq> [] \<longrightarrow>
            NewTemplateFromString loc text ctx = Inr [TemplateTextPortion (unescape text)])"
proof -
  let ?s0 = "initial_state loc"
  have "template_loop ctx ?s0 text =
      ?s0\<lparr>location := loc_after (location ?s0) text,
          accumulatedText := accumulatedText ?s0 @ unescape text\<rparr>"
    using assms by (intro template_loop_plain) (simp add: initial_state_def)
  then have run: "NewTemplateFromString loc text ctx =
      (if unescape text \<noteq> [] then Inr [TemplateTextPortion (unescape text)] else Inr [])"
    by (simp add: NewTemplateFromString_def initial_state_def demo_loc_def)
  show ?thesis
  proof (intro conjI impI)
    show "\<exists>ps. NewTemplateFromString loc text ctx = Inr ps \<and>
               Template_Render env g ps = (Inr (unescape text), g)"
      using run by (auto simp: Template_Render_def)
    assume "text \<noteq> []"
    then show "NewTemplateFromString loc text ctx = Inr [TemplateTextPortion (unescape text)]"
      using run unescape_nonempty by simp
  qed
qed

theorem no_code_blocks_roundtrip_witness:
  "no_unescaped lbrace (to_runes ''a'' @ [backslash, lbrace] @ to_runes ''b'' @ [backslash, rbrace, backslash]) \<and>
   NewTemplateFromString demo_loc
     (to_runes ''a'' @ [backslash, lbrace] @ to_runes ''b'' @ [backslash, rbrace, backslash])
     demo_ctx =
   Inr [TemplateTextPortion (to_runes ''a{b}'' @ [backslash])] \<and>
   Template_Render demo_env (0::nat) [TemplateTextPortion (to_runes ''a{b}'' @ [backslash])] =
     (Inr (to_runes ''a{b}'' @ [backslash]), 0) \<and>
   unescape (to_runes ''a'' @ [backslash, lbrace] @ to_runes ''b'' @ [backslash, rbrace, backslash]) =
     to_runes ''a{b}'' @ [backslash]"
  using no_code_blocks_roundtrip
    [of "to_runes ''a'' @ [backslash, lbrace] @ to_runes ''b'' @ [backslash, rbrace, backslash]"
        demo_loc demo_ctx demo_env 0]
  by (auto simp: to_runes_def Template_Render_def)



section \<open>The claims about the directive evaluator\<close>

lemmas demo_eval =
  demo_loc_def demo_ctx_def demo_env_def demo_ReadDir_def demo_Intn_def demo_Unmarshal_def

lemmas path_eval =
  path_Join_def path_Clean_def clean_step_def path_Ext_def eligible_def

lemma choose_dispatch:
  assumes "NextToken (NewTokenizer code loc) = Inr (Some funcTok, t1)"
      and "IsWord funcTok"
      and "tok_value funcTok = to_runes ''chooseRandomTopLevelFileFromStaticPath''"
  shows "TemplateCodePortion_Render env g ctx loc code =
           renderChooseRandomTopLevelFileFromStaticPath env g ctx loc t1 funcTok"
proof -
  have "to_runes ''chooseRandomTopLevelFileFromStaticPath'' \<noteq> to_runes ''var''"
       "to_runes ''chooseRandomTopLevelFileFromStaticPath'' \<noteq> to_runes ''content''"
    by (simp_all add: to_runes_def)
  then show ?thesis
    using assms by (simp add: TemplateCodePortion_Render_def)
qed

lemma choose_args:
  assumes "length args = 1 \<or> length args = 2"
      and "\<forall>a \<in> set args. tok_kind a = TokenKindString"
  shows "tok_kind (args ! 0) = TokenKindString"
    and "length args = 2 \<Longrightarrow> tok_kind (args ! 1) = TokenKindString"
  using assms by (cases args; cases "tl args"; auto)+

lemma choose_result:
  assumes "parseFunctionArgs t1 loc = Inr (args, t2)"
      and "length args = 1 \<or> length args = 2"
      and "\<forall>a \<in> set args. tok_kind a = TokenKindString"
      and "ext = (if length args = 2 then tok_value (args ! 1) else [])"
  shows "fst (renderChooseRandomTopLevelFileFromStaticPath env g ctx loc t1 funcTok) =
           (case os_ReadDir env (path_Join [StaticDir ctx, path_Clean (tok_value (args ! 0))]) of
              None \<Rightarrow> Inl (errTemplateInternalFunctionExecutionError funcTok)
            | Some entries \<Rightarrow>
                if eligible ext entries = []
                then Inl (errTemplateInternalFunctionExecutionError funcTok)
                else if fst (rand_Intn env g (length (eligible ext entries)))
                          < length (eligible ext entries)
                then Inr (path_Join [[slash], StaticDir ctx, tok_value (args ! 0),
                       eligible ext entries ! fst (rand_Intn env g (length (eligible ext entries)))])
                else Inl Panic)"
  using assms(1,2,4) choose_args [OF assms(2,3)]
  by (auto simp: renderChooseRandomTopLevelFileFromStaticPath_def Let_def
           split: prod.splits option.splits)


lemma content_render:
  assumes "NextToken (NewTokenizer code loc) = Inr (Some funcTok, t1)"
      and "IsWord funcTok" and "tok_value funcTok = to_runes ''content''"
      and "parseFunctionArgs t1 loc = Inr (args, t2)"
  shows "TemplateCodePortion_Render env g ctx loc code =
           (if args \<noteq> []
            then Inl (ErrTemplateIncorrectArgsCount (tok_location funcTok) (to_runes ''content''))
            else Inr (Content ctx),
            g)"
proof -
  have kind: "tok_kind funcTok = TokenKindWord" using assms(2) by (simp add: IsWord_def)
  have ne: "to_runes ''content'' \<noteq> to_runes ''var''" by (simp add: to_runes_def)
  have "TemplateCodePortion_Render env g ctx loc code = (renderContent ctx loc t1 funcTok, g)"
    using assms(1,2,3) ne by (simp add: TemplateCodePortion_Render_def)
  then show ?thesis
    using assms(3,4) kind
    by (simp add: renderContent_def errIncorrectArgsCount_def)
qed



text \<open>
  Claim C2. For a code block whose first token is the word \<^verbatim>\<open>content\<close> and whose
  argument list \<^verbatim>\<open>parseFunctionArgs\<close> accepts: a non-empty list fails with "incorrect
  argument count" (at the \<^verbatim>\<open>content\<close> token), an empty one returns the context's
  \<^verbatim>\<open>Content\<close> string unchanged. In particular the call with one string argument
  fails in that way, the call with an empty argument list returns \<^verbatim>\<open>Content\<close>, and
  the template consisting of that call between braces compiles and renders to
  \<^verbatim>\<open>Content\<close>.
\<close>

theorem content_directive:
  "(NextToken (NewTokenizer code loc) = Inr (Some funcTok, t1) \<and> IsWord funcTok \<and>
    tok_value funcTok = to_runes ''content'' \<and> parseFunctionArgs t1 loc = Inr (args, t2) \<longrightarrow>
      TemplateCodePortion_Render env g ctx loc code =
        (if args \<noteq> []
         then Inl (ErrTemplateIncorrectArgsCount (tok_location funcTok) (to_runes ''content''))
         else Inr (Content ctx),
         g)) \<and>
   (quote \<notin> set K \<and> backslash \<notin> set K \<longrightarrow>
      TemplateCodePortion_Render env g ctx loc
        (to_runes ''content'' @ lparen # quote # K @ [quote, rparen]) =
        (Inl (ErrTemplateIncorrectArgsCount loc (to_runes ''content'')), g)) \<and>
   TemplateCodePortion_Render env g ctx loc (to_runes ''content'' @ [lparen, rparen]) =
     (Inr (Content ctx), g) \<and>
   (\<exists>t. NewTemplateFromString loc (lbrace # (to_runes ''content'' @ [lparen, rparen]) @ [rbrace]) ctx
           = Inr t \<and>
        Template_Render env g t = (Inr (Content ctx), g))"
proof (intro conjI impI)
  assume h: "NextToken (NewTokenizer code loc) = Inr (Some funcTok, t1) \<and> IsWord funcTok \<and>
    tok_value funcTok = to_runes ''content'' \<and> parseFunctionArgs t1 loc = Inr (args, t2)"
  show "TemplateCodePortion_Render env g ctx loc code =
        (if args \<noteq> []
         then Inl (ErrTemplateIncorrectArgsCount (tok_location funcTok) (to_runes ''content''))
         else Inr (Content ctx),
         g)"
    by (rule content_render [OF h [THEN conjunct1] h [THEN conjunct2, THEN conjunct1]
          h [THEN conjunct2, THEN conjunct2, THEN conjunct1]
          h [THEN conjunct2, THEN conjunct2, THEN conjunct2]])
next
  assume k: "quote \<notin> set K \<and> backslash \<notin> set K"
  show "TemplateCodePortion_Render env g ctx loc
        (to_runes ''content'' @ lparen # quote # K @ [quote, rparen]) =
        (Inl (ErrTemplateIncorrectArgsCount loc (to_runes ''content'')), g)"
    by (rule content_call(2) [OF k [THEN conjunct1] k [THEN conjunct2]])
next
  show "TemplateCodePortion_Render env g ctx loc (to_runes ''content'' @ [lparen, rparen]) =
     (Inr (Content ctx), g)"
    by (rule content_call(1))
next
  let ?code = "to_runes ''content'' @ [lparen, rparen]"
  have "backslash \<notin> set ?code" "rbrace \<notin> set ?code" by (simp_all add: to_runes_def)
  then have c: "NewTemplateFromString loc (lbrace # ?code @ [rbrace]) ctx =
      Inr [TemplateTextPortion [], TemplateCodePortion ctx (advance_loc loc lbrace) ?code]"
    by (rule single_block)
  have "Template_Render env g
      [TemplateTextPortion [], TemplateCodePortion ctx (advance_loc loc lbrace) ?code] =
      (Inr (Content ctx), g)"
    using content_call(1) [of env g ctx "advance_loc loc lbrace"]
    by (simp add: render_single_block)
  with c show "\<exists>t. NewTemplateFromString loc (lbrace # ?code @ [rbrace]) ctx = Inr t \<and>
           Template_Render env g t = (Inr (Content ctx), g)"
    by blast
qed

text \<open>
  The blocks \<^verbatim>\<open>content("x")\<close>, \<^verbatim>\<open>content("y")\<close> and \<^verbatim>\<open>content()\<close> in the example
  context, and the template made of the last one between braces.
\<close>

theorem content_directive_witness:
  \<open>NextToken (NewTokenizer (to_runes ''content("x")'') demo_loc) =
     Inr (Some \<lparr>tok_kind = TokenKindWord, tok_value = to_runes ''content'', tok_location = demo_loc\<rparr>,
          \<lparr>runes = to_runes ''content("x")'', cursor = 7,
           tz_location = \<lparr>path = to_runes ''page'', row = 1, column = 8\<rparr>,
           singleCharTokens = [lparen, rparen, lbrace, rbrace, comma]\<rparr>) \<and>
   IsWord \<lparr>tok_kind = TokenKindWord, tok_value = to_runes ''content'', tok_location = demo_loc\<rparr> \<and>
   parseFunctionArgs
     \<lparr>runes = to_runes ''content("x")'', cursor = 7,
      tz_location = \<lparr>path = to_runes ''page'', row = 1, column = 8\<rparr>,
      singleCharTokens = [lparen, rparen, lbrace, rbrace, comma]\<rparr> demo_loc =
     Inr ([\<lparr>tok_kind = TokenKindString, tok_value = to_runes ''x'',
            tok_location = \<lparr>path = to_runes ''page'', row = 1, column = 9\<rparr>\<rparr>],
          \<lparr>runes = to_runes ''content("x")'', cursor = 12,
           tz_location = \<lparr>path = to_runes ''page'', row = 1, column = 13\<rparr>,
           singleCharTokens = [lparen, rparen, lbrace, rbrace, comma]\<rparr>) \<and>
   TemplateCodePortion_Render demo_env (0::nat) demo_ctx demo_loc (to_runes ''content("x")'') =
     (Inl (ErrTemplateIncorrectArgsCount demo_loc (to_runes ''content'')), 0) \<and>
   TemplateCodePortion_Render demo_env (0::nat) demo_ctx demo_loc (to_runes ''content()'') =
     (Inr (Content demo_ctx), 0) \<and>
   quote \<notin> set (to_runes ''y'') \<and> backslash \<notin> set (to_runes ''y'') \<and>
   TemplateCodePortion_Render demo_env (0::nat) demo_ctx demo_loc (to_runes ''content("y")'') =
     (Inl (ErrTemplateIncorrectArgsCount demo_loc (to_runes ''content'')), 0) \<and>
   (\<exists>t. NewTemplateFromString demo_loc (to_runes ''{content()}'') demo_ctx = Inr t \<and>
        Template_Render demo_env (0::nat) t = (Inr (to_runes ''<p>Hi</p>''), 0))\<close>
proof -
  have h1: \<open>NextToken (NewTokenizer (to_runes ''content("x")'') demo_loc) =
     Inr (Some \<lparr>tok_kind = TokenKindWord, tok_value = to_runes ''content'', tok_location = demo_loc\<rparr>,
          \<lparr>runes = to_runes ''content("x")'', cursor = 7,
           tz_location = \<lparr>path = to_runes ''page'', row = 1, column = 8\<rparr>,
           singleCharTokens = [lparen, rparen, lbrace, rbrace, comma]\<rparr>)\<close>
    by (simp add: tokenizer_eval demo_eval advance_loc_def)
  have h2: "IsWord \<lparr>tok_kind = TokenKindWord, tok_value = to_runes ''content'', tok_location = demo_loc\<rparr>"
    by (simp add: IsWord_def)
  have h3: "tok_value \<lparr>tok_kind = TokenKindWord, tok_value = to_runes ''content'',
               tok_location = demo_loc\<rparr> = to_runes ''content''"
    by simp
  have h4: \<open>parseFunctionArgs
     \<lparr>runes = to_runes ''content("x")'', cursor = 7,
      tz_location = \<lparr>path = to_runes ''page'', row = 1, column = 8\<rparr>,
      singleCharTokens = [lparen, rparen, lbrace, rbrace, comma]\<rparr> demo_loc =
     Inr ([\<lparr>tok_kind = TokenKindString, tok_value = to_runes ''x'',
            tok_location = \<lparr>path = to_runes ''page'', row = 1, column = 9\<rparr>\<rparr>],
          \<lparr>runes = to_runes ''content("x")'', cursor = 12,
           tz_location = \<lparr>path = to_runes ''page'', row = 1, column = 13\<rparr>,
           singleCharTokens = [lparen, rparen, lbrace, rbrace, comma]\<rparr>)\<close>
    by (simp add: tokenizer_eval demo_eval advance_loc_def)
  from content_directive [where code = \<open>to_runes ''content("x")''\<close> and loc = demo_loc
      and env = demo_env and g = "0::nat" and ctx = demo_ctx, THEN conjunct1, rule_format,
      OF conjI [OF h1 conjI [OF h2 conjI [OF h3 h4]]]]
  have e: \<open>TemplateCodePortion_Render demo_env (0::nat) demo_ctx demo_loc (to_runes ''content("x")'') =
     (Inl (ErrTemplateIncorrectArgsCount demo_loc (to_runes ''content'')), 0)\<close>
    by simp
  have k1: "NextToken (NewTokenizer (to_runes ''content()'') demo_loc) =
     Inr (Some \<lparr>tok_kind = TokenKindWord, tok_value = to_runes ''content'', tok_location = demo_loc\<rparr>,
          \<lparr>runes = to_runes ''content()'', cursor = 7,
           tz_location = \<lparr>path = to_runes ''page'', row = 1, column = 8\<rparr>,
           singleCharTokens = [lparen, rparen, lbrace, rbrace, comma]\<rparr>)"
    by (simp add: tokenizer_eval demo_eval advance_loc_def)
  have k4: "parseFunctionArgs
     \<lparr>runes = to_runes ''content()'', cursor = 7,
      tz_location = \<lparr>path = to_runes ''page'', row = 1, column = 8\<rparr>,
      singleCharTokens = [lparen, rparen, lbrace, rbrace, comma]\<rparr> demo_loc =
     Inr ([], \<lparr>runes = to_runes ''content()'', cursor = 9,
           tz_location = \<lparr>path = to_runes ''page'', row = 1, column = 10\<rparr>,
           singleCharTokens = [lparen, rparen, lbrace, rbrace, comma]\<rparr>)"
    by (simp add: tokenizer_eval demo_eval advance_loc_def)
  from content_directive [where code = "to_runes ''content()''" and loc = demo_loc
      and env = demo_env and g = "0::nat" and ctx = demo_ctx, THEN conjunct1, rule_format,
      OF conjI [OF k1 conjI [OF h2 conjI [OF h3 k4]]]]
  have s: "TemplateCodePortion_Render demo_env (0::nat) demo_ctx demo_loc (to_runes ''content()'') =
     (Inr (Content demo_ctx), 0)"
    by simp
  have n: "quote \<notin> set (to_runes ''y'') \<and> backslash \<notin> set (to_runes ''y'')"
    by (simp add: to_runes_def)
  from content_directive [where K = "to_runes ''y''" and loc = demo_loc
      and env = demo_env and g = "0::nat" and ctx = demo_ctx,
      THEN conjunct2, THEN conjunct1, rule_format, OF n]
  have m: \<open>TemplateCodePortion_Render demo_env (0::nat) demo_ctx demo_loc (to_runes ''content("y")'') =
     (Inl (ErrTemplateIncorrectArgsCount demo_loc (to_runes ''content'')), 0)\<close>
    by (simp add: to_runes_def)
  from content_directive [where loc = demo_loc
      and env = demo_env and g = "0::nat" and ctx = demo_ctx,
      THEN conjunct2, THEN conjunct2, THEN conjunct2]
  have t: \<open>\<exists>t. NewTemplateFromString demo_loc (to_runes ''{content()}'') demo_ctx = Inr t \<and>
        Template_Render demo_env (0::nat) t = (Inr (to_runes ''<p>Hi</p>''), 0)\<close>
    by (simp add: to_runes_def demo_ctx_def)
  from h1 h2 h4 e s n m t show ?thesis by (intro conjI) simp_all
qed

text \<open>
  Claim C3, as stated, fails. With the empty string as second argument nothing is excluded
  (\<^verbatim>\<open>ext != "" && path.Ext(e.Name()) == ext\<close>): \<^verbatim>\<open>README\<close> has the extension
  \<^verbatim>\<open>""\<close>, equal to the second argument, and is chosen. And the result is built by
  \<^verbatim>\<open>path.Join\<close>, which cleans it: for the directory argument \<^verbatim>\<open>./img/\<close> the result
  is \<^verbatim>\<open>/static/img/a.png\<close>, not the concatenation of the four parts.
\<close>

theorem choose_random_file_counterexample:
  \<open>TemplateCodePortion_Render demo_env (0::nat) demo_ctx demo_loc
     (to_runes ''chooseRandomTopLevelFileFromStaticPath("img", "")'') =
     (Inr (to_runes ''/static/img/README''), 1) \<and>
   path_Ext (to_runes ''README'') = [] \<and>
   TemplateCodePortion_Render demo_env (1::nat) demo_ctx demo_loc
     (to_runes ''chooseRandomTopLevelFileFromStaticPath("./img/")'') =
     (Inr (to_runes ''/static/img/a.png''), 2)\<close>
  by (simp add: tokenizer_eval demo_eval path_eval advance_loc_def
        renderChooseRandomTopLevelFileFromStaticPath_def)

text \<open>
  Claim C3, amended. For \<^verbatim>\<open>chooseRandomTopLevelFileFromStaticPath\<close> with one or two
  string-literal arguments, where \<open>dir\<close> is what \<^verbatim>\<open>os.ReadDir\<close> returns for
  \<^verbatim>\<open>path.Join(StaticDir, path.Clean(dirPath))\<close> and \<^verbatim>\<open>rand.Intn\<close> keeps its contract:
  an entry is excluded exactly when the second argument is given, is not empty and equals
  the entry's extension; the evaluation fails as an internal function execution error
  exactly when the directory cannot be listed or no entry is eligible; with exactly one
  eligible entry \<open>n\<close> the result is \<^verbatim>\<open>path.Join("/", StaticDir, dirPath, n)\<close>; and with
  any eligible entries the result is that path for some eligible entry \<open>n\<close>.
\<close>

theorem choose_random_file:
  assumes "NextToken (NewTokenizer code loc) = Inr (Some funcTok, t1)"
      and "IsWord funcTok"
      and "tok_value funcTok = to_runes ''chooseRandomTopLevelFileFromStaticPath''"
      and "parseFunctionArgs t1 loc = Inr (args, t2)"
      and "length args = 1 \<or> length args = 2"
      and "\<forall>a \<in> set args. tok_kind a = TokenKindString"
      and "dirPath = tok_value (args ! 0)"
      and "ext = (if length args = 2 then tok_value (args ! 1) else [])"
      and "os_ReadDir env (path_Join [StaticDir ctx, path_Clean dirPath]) = dir"
      and "\<forall>n. 0 < n \<longrightarrow> fst (rand_Intn env g n) < n"
      and "R = fst (TemplateCodePortion_Render env g ctx loc code)"
  shows "((\<exists>l v. R = Inl (ErrTemplateInternalFunctionExecutionError l v)) \<longleftrightarrow>
            (dir = None \<or>
             (\<exists>entries. dir = Some entries \<and>
                filter (\<lambda>name. \<not> (ext \<noteq> [] \<and> path_Ext name = ext)) entries = []))) \<and>
         (\<forall>entries n. dir = Some entries \<and>
              filter (\<lambda>name. \<not> (ext \<noteq> [] \<and> path_Ext name = ext)) entries = [n] \<longrightarrow>
              R = Inr (path_Join [[slash], StaticDir ctx, dirPath, n])) \<and>
         (\<forall>entries. dir = Some entries \<and>
              filter (\<lambda>name. \<not> (ext \<noteq> [] \<and> path_Ext name = ext)) entries \<noteq> [] \<longrightarrow>
              (\<exists>n \<in> set entries. \<not> (ext \<noteq> [] \<and> path_Ext n = ext) \<and>
                 R = Inr (path_Join [[slash], StaticDir ctx, dirPath, n])))"
proof -
  have dp: "tok_value (args ! 0) = dirPath" using assms(7) by simp
  have R: "R = (case dir of
              None \<Rightarrow> Inl (errTemplateInternalFunctionExecutionError funcTok)
            | Some entries \<Rightarrow>
                if eligible ext entries = []
                then Inl (errTemplateInternalFunctionExecutionError funcTok)
                else if fst (rand_Intn env g (length (eligible ext entries)))
                          < length (eligible ext entries)
                then Inr (path_Join [[slash], StaticDir ctx, dirPath,
                       eligible ext entries ! fst (rand_Intn env g (length (eligible ext entries)))])
                else Inl Panic)"
    using choose_dispatch [OF assms(1,2,3), where env = env and g = g and ctx = ctx]
      choose_result [OF assms(4,5,6,8), where env = env and g = g and ctx = ctx
        and funcTok = funcTok] assms(9,11)
    unfolding dp by simp
  show ?thesis
  proof (cases dir)
    case None
    with R show ?thesis by (simp add: errTemplateInternalFunctionExecutionError_def)
  next
    case (Some entries)
    let ?files = "eligible ext entries"
    show ?thesis
    proof (cases "?files = []")
      case True
      with R Some show ?thesis
        by (simp add: errTemplateInternalFunctionExecutionError_def eligible_def)
    next
      case False
      let ?i = "fst (rand_Intn env g (length ?files))"
      from False assms(10) have i: "?i < length ?files" by simp
      with R Some False have val: "R = Inr (path_Join [[slash], StaticDir ctx, dirPath, ?files ! ?i])"
        by simp
      have mem: "?files ! ?i \<in> set ?files" using i by simp
      then have el: "?files ! ?i \<in> set entries"
        "\<not> (ext \<noteq> [] \<and> path_Ext (?files ! ?i) = ext)"
        by (simp_all add: eligible_def)
      have one: "?files = [n] \<Longrightarrow> ?files ! ?i = n" for n
        using i by simp
      have p1: "(\<exists>l v. R = Inl (ErrTemplateInternalFunctionExecutionError l v)) \<longleftrightarrow>
            (dir = None \<or>
             (\<exists>entries. dir = Some entries \<and>
                filter (\<lambda>name. \<not> (ext \<noteq> [] \<and> path_Ext name = ext)) entries = []))"
        using val Some False by (simp add: eligible_def)
      have p2: "\<forall>entries n. dir = Some entries \<and>
              filter (\<lambda>name. \<not> (ext \<noteq> [] \<and> path_Ext name = ext)) entries = [n] \<longrightarrow>
              R = Inr (path_Join [[slash], StaticDir ctx, dirPath, n])"
        using val Some one by (simp add: eligible_def)
      have p3: "\<forall>entries. dir = Some entries \<and>
              filter (\<lambda>name. \<not> (ext \<noteq> [] \<and> path_Ext name = ext)) entries \<noteq> [] \<longrightarrow>
              (\<exists>n \<in> set entries. \<not> (ext \<noteq> [] \<and> path_Ext n = ext) \<and>
                 R = Inr (path_Join [[slash], StaticDir ctx, dirPath, n]))"
        using val Some el by blast
      from p1 p2 p3 show ?thesis by blast
    qed
  qed
qed

text \<open>
  The block \<^verbatim>\<open>chooseRandomTopLevelFileFromStaticPath("img", ".png")\<close> over a directory
  holding \<^verbatim>\<open>README\<close>, \<^verbatim>\<open>a.png\<close> and \<^verbatim>\<open>b.txt\<close>.
\<close>

theorem choose_random_file_witness:
  \<open>NextToken (NewTokenizer
       (to_runes ''chooseRandomTopLevelFileFromStaticPath("img", ".png")'') demo_loc) =
     Inr (Some \<lparr>tok_kind = TokenKindWord,
                tok_value = to_runes ''chooseRandomTopLevelFileFromStaticPath'',
                tok_location = demo_loc\<rparr>,
          \<lparr>runes = to_runes ''chooseRandomTopLevelFileFromStaticPath("img", ".png")'',
           cursor = 38, tz_location = \<lparr>path = to_runes ''page'', row = 1, column = 39\<rparr>,
           singleCharTokens = [lparen, rparen, lbrace, rbrace, comma]\<rparr>) \<and>
   parseFunctionArgs
     \<lparr>runes = to_runes ''chooseRandomTopLevelFileFromStaticPath("img", ".png")'',
      cursor = 38, tz_location = \<lparr>path = to_runes ''page'', row = 1, column = 39\<rparr>,
      singleCharTokens = [lparen, rparen, lbrace, rbrace, comma]\<rparr> demo_loc =
     Inr ([\<lparr>tok_kind = TokenKindString, tok_value = to_runes ''img'',
            tok_location = \<lparr>path = to_runes ''page'', row = 1, column = 40\<rparr>\<rparr>,
           \<lparr>tok_kind = TokenKindString, tok_value = to_runes ''.png'',
            tok_location = \<lparr>path = to_runes ''page'', row = 1, column = 47\<rparr>\<rparr>],
          \<lparr>runes = to_runes ''chooseRandomTopLevelFileFromStaticPath("img", ".png")'',
           cursor = 53, tz_location = \<lparr>path = to_runes ''page'', row = 1, column = 54\<rparr>,
           singleCharTokens = [lparen, rparen, lbrace, rbrace, comma]\<rparr>) \<and>
   os_ReadDir demo_env (path_Join [StaticDir demo_ctx, path_Clean (to_runes ''img'')]) =
     Some [to_runes ''README'', to_runes ''a.png'', to_runes ''b.txt''] \<and>
   filter (\<lambda>name. \<not> (to_runes ''.png'' \<noteq> [] \<and> path_Ext name = to_runes ''.png''))
     [to_runes ''README'', to_runes ''a.png'', to_runes ''b.txt''] =
     [to_runes ''README'', to_runes ''b.txt''] \<and>
   (fst (TemplateCodePortion_Render demo_env (1::nat) demo_ctx demo_loc
           (to_runes ''chooseRandomTopLevelFileFromStaticPath("img", ".png")'')) =
      Inr (to_runes ''/static/img/README'') \<or>
    fst (TemplateCodePortion_Render demo_env (1::nat) demo_ctx demo_loc
           (to_runes ''chooseRandomTopLevelFileFromStaticPath("img", ".png")'')) =
      Inr (to_runes ''/static/img/b.txt'')) \<and>
   TemplateCodePortion_Render demo_env (1::nat) demo_ctx demo_loc
     (to_runes ''chooseRandomTopLevelFileFromStaticPath("img", ".png")'') =
     (Inr (to_runes ''/static/img/b.txt''), 2)\<close>
proof -
  let ?code = \<open>to_runes ''chooseRandomTopLevelFileFromStaticPath("img", ".png")''\<close>
  let ?funcTok = "\<lparr>tok_kind = TokenKindWord,
                tok_value = to_runes ''chooseRandomTopLevelFileFromStaticPath'',
                tok_location = demo_loc\<rparr>"
  let ?t1 = "\<lparr>runes = ?code, cursor = 38,
              tz_location = \<lparr>path = to_runes ''page'', row = 1, column = 39\<rparr>,
              singleCharTokens = [lparen, rparen, lbrace, rbrace, comma]\<rparr>"
  let ?args = "[\<lparr>tok_kind = TokenKindString, tok_value = to_runes ''img'',
            tok_location = \<lparr>path = to_runes ''page'', row = 1, column = 40\<rparr>\<rparr>,
           \<lparr>tok_kind = TokenKindString, tok_value = to_runes ''.png'',
            tok_location = \<lparr>path = to_runes ''page'', row = 1, column = 47\<rparr>\<rparr>]"
  let ?t2 = "\<lparr>runes = ?code, cursor = 53,
              tz_location = \<lparr>path = to_runes ''page'', row = 1, column = 54\<rparr>,
              singleCharTokens = [lparen, rparen, lbrace, rbrace, comma]\<rparr>"
  let ?entries = "[to_runes ''README'', to_runes ''a.png'', to_runes ''b.txt'']"
  have h1: "NextToken (NewTokenizer ?code demo_loc) = Inr (Some ?funcTok, ?t1)"
    by (simp add: tokenizer_eval demo_eval advance_loc_def)
  have h2: "IsWord ?funcTok" by (simp add: IsWord_def)
  have h3: "tok_value ?funcTok = to_runes ''chooseRandomTopLevelFileFromStaticPath''" by simp
  have h4: "parseFunctionArgs ?t1 demo_loc = Inr (?args, ?t2)"
    by (simp add: tokenizer_eval demo_eval advance_loc_def)
  have h5: "length ?args = 1 \<or> length ?args = 2" by simp
  have h6: "\<forall>a \<in> set ?args. tok_kind a = TokenKindString" by simp
  have h7: "to_runes ''img'' = tok_value (?args ! 0)" by simp
  have h8: "to_runes ''.png'' = (if length ?args = 2 then tok_value (?args ! 1) else [])" by simp
  have h9: "os_ReadDir demo_env (path_Join [StaticDir demo_ctx, path_Clean (to_runes ''img'')]) =
      Some ?entries"
    by (simp add: demo_eval path_eval to_runes_def)
  have h10: "\<forall>n. 0 < n \<longrightarrow> fst (rand_Intn demo_env (1::nat) n) < n"
    by (simp add: demo_eval)
  have f: "filter (\<lambda>name. \<not> (to_runes ''.png'' \<noteq> [] \<and> path_Ext name = to_runes ''.png''))
      ?entries = [to_runes ''README'', to_runes ''b.txt'']"
    by (simp add: path_eval to_runes_def)
  have v: "TemplateCodePortion_Render demo_env (1::nat) demo_ctx demo_loc ?code =
     (Inr (to_runes ''/static/img/b.txt''), 2)"
    by (simp add: tokenizer_eval demo_eval path_eval advance_loc_def
          renderChooseRandomTopLevelFileFromStaticPath_def)
  from choose_random_file [OF h1 h2 h3 h4 h5 h6 h7 h8 h9 h10 refl] f
  have "\<exists>n \<in> set ?entries.
      \<not> (to_runes ''.png'' \<noteq> [] \<and> path_Ext n = to_runes ''.png'') \<and>
      fst (TemplateCodePortion_Render demo_env (1::nat) demo_ctx demo_loc ?code) =
        Inr (path_Join [[slash], StaticDir demo_ctx, to_runes ''img'', n])"
    by simp
  then have "fst (TemplateCodePortion_Render demo_env (1::nat) demo_ctx demo_loc ?code) =
      Inr (to_runes ''/static/img/README'') \<or>
    fst (TemplateCodePortion_Render demo_env (1::nat) demo_ctx demo_loc ?code) =
      Inr (to_runes ''/static/img/b.txt'')"
    by (simp add: demo_eval path_eval to_runes_def)
  with h1 h4 h9 f v show ?thesis by simp
qed

section \<open>The claims about the page composer and the JSON header\<close>

text \<open>
  Claim C8 does not hold of the code. The header of a page-data file is JSON with
  comments: it is handed to \<^verbatim>\<open>UnmarshalJsonWithComments\<close>, and \<^verbatim>\<open>removeCommentsFromJson\<close>
  skips comments and knows strings. The scan that looks for the end of the header knows
  strings but not comments, so a closing brace inside a comment is counted. On the file
  \<^verbatim>\<open>{ /* } */ "a":"b"}Body\<close> the header \<^verbatim>\<open>{ /* } */ "a":"b"}\<close> is well formed: stripping
  its comment succeeds and leaves a JSON object for the decoder. But the scan returns to
  depth zero at the brace inside the comment: the header it delivers is \<^verbatim>\<open>{ /* }\<close>, which
  is not the header and does not end at the header's closing brace, the rest is not the
  body, stripping the comments of that header fails with "Unclosed comment", and the page
  is rejected with "invalid JSON header" whatever the decoder is. A closing brace inside a
  string, as in \<^verbatim>\<open>{"t":"}"}Hi\<close>, is skipped as the claim says.
\<close>

theorem header_comment_brace:
  \<open>removeCommentsFromJson (to_runes ''{ /* } */ "a":"b"}'') = Inr (to_runes ''{  "a":"b"}'') \<and>
   UnmarshalJsonWithComments env (to_runes ''{ /* } */ "a":"b"}'') =
     (case json_Unmarshal env (to_runes ''{  "a":"b"}'') of
        None \<Rightarrow> Inl ErrJsonUnmarshal
      | Some v \<Rightarrow> Inr v) \<and>
   header_loop header_start [] demo_loc (to_runes ''{ /* } */ "a":"b"}Body'') =
     (to_runes ''{ /* }'', \<lparr>path = to_runes ''page'', row = 1, column = 7\<rparr>,
      to_runes '' */ "a":"b"}Body'') \<and>
   to_runes ''{ /* }'' \<noteq> to_runes ''{ /* } */ "a":"b"}'' \<and>
   to_runes '' */ "a":"b"}Body'' \<noteq> to_runes ''Body'' \<and>
   removeCommentsFromJson (to_runes ''{ /* }'') = Inl ErrUnclosedComment \<and>
   NewTemplateInputFromString env demo_loc (to_runes ''{ /* } */ "a":"b"}Body'') staticDir =
     Inl (ErrInvalidJsonHeader (to_runes ''page'')) \<and>
   NewTemplateInputFromString demo_env demo_loc (to_runes ''{"t":"}"}Hi'') staticDir =
     Inr \<lparr>variables = [to_runes ''t'' \<mapsto> to_runes ''}''],
          content = [TemplateTextPortion (to_runes ''Hi'')]\<rparr>\<close>
proof -
  have s: \<open>removeCommentsFromJson (to_runes ''{ /* } */ "a":"b"}'') = Inr (to_runes ''{  "a":"b"}'')\<close>
    by (simp add: removeCommentsFromJson_def comment_step_def remove_loop.simps to_runes_def)
  have d: \<open>UnmarshalJsonWithComments env (to_runes ''{ /* } */ "a":"b"}'') =
     (case json_Unmarshal env (to_runes ''{  "a":"b"}'') of
        None \<Rightarrow> Inl ErrJsonUnmarshal
      | Some v \<Rightarrow> Inr v)\<close>
    unfolding UnmarshalJsonWithComments_def s by simp
  have h: \<open>header_loop header_start [] demo_loc (to_runes ''{ /* } */ "a":"b"}Body'') =
     (to_runes ''{ /* }'', \<lparr>path = to_runes ''page'', row = 1, column = 7\<rparr>,
      to_runes '' */ "a":"b"}Body'')\<close>
    by (simp add: header_start_def header_step_def to_runes_def advance_loc_def demo_loc_def)
  have n: \<open>to_runes ''{ /* }'' \<noteq> to_runes ''{ /* } */ "a":"b"}''\<close>
       \<open>to_runes '' */ "a":"b"}Body'' \<noteq> to_runes ''Body''\<close>
    by (simp_all add: to_runes_def)
  have u: \<open>removeCommentsFromJson (to_runes ''{ /* }'') = Inl ErrUnclosedComment\<close>
    by (simp add: removeCommentsFromJson_def comment_step_def remove_loop.simps to_runes_def)
  have f: \<open>NewTemplateInputFromString env demo_loc (to_runes ''{ /* } */ "a":"b"}Body'') staticDir =
     Inl (ErrInvalidJsonHeader (to_runes ''page''))\<close>
    using h u by (simp add: NewTemplateInputFromString_def header_start_def
        UnmarshalJsonWithComments_def demo_loc_def)
  have h2: \<open>header_loop header_start [] demo_loc (to_runes ''{"t":"}"}Hi'') =
     (to_runes ''{"t":"}"}'', \<lparr>path = to_runes ''page'', row = 1, column = 10\<rparr>,
      to_runes ''Hi'')\<close>
    by (simp add: header_start_def header_step_def to_runes_def advance_loc_def demo_loc_def)
  have u2: \<open>UnmarshalJsonWithComments demo_env (to_runes ''{"t":"}"}'') =
      Inr [to_runes ''t'' \<mapsto> to_runes ''}'']\<close>
    by (simp add: UnmarshalJsonWithComments_def removeCommentsFromJson_def comment_step_def
          remove_loop.simps demo_eval to_runes_def)
  have c: "NewTemplateFromString \<lparr>path = to_runes ''page'', row = 1, column = 10\<rparr> (to_runes ''Hi'')
      \<lparr>StaticDir = staticDir, Content = to_runes ''[content()]'',
       Variables = [to_runes ''t'' \<mapsto> to_runes ''}'']\<rparr> =
      Inr [TemplateTextPortion (to_runes ''Hi'')]"
    by (simp add: NewTemplateFromString_def initial_state_def to_runes_def advance_loc_def)
  have g: \<open>NewTemplateInputFromString demo_env demo_loc (to_runes ''{"t":"}"}Hi'') staticDir =
     Inr \<lparr>variables = [to_runes ''t'' \<mapsto> to_runes ''}''],
          content = [TemplateTextPortion (to_runes ''Hi'')]\<rparr>\<close>
    using h2 u2 c by (simp add: NewTemplateInputFromString_def header_start_def)
  from s d h n u f g show ?thesis by (intro conjI)
qed

text \<open>
  Claim C9. For every JSON text made of segments (text outside strings, string literals,
  line comments with their line end, closed block comments), \<^verbatim>\<open>removeCommentsFromJson\<close>
  succeeds and returns the text without its comments: every string literal is kept rune
  for rune, whatever it contains, every line comment is reduced to its line end, every
  block comment disappears. A line comment that runs to the end of the text is removed as
  well. A block comment opened after such a text and never closed makes stripping fail.
  \<^verbatim>\<open>UnmarshalJsonWithComments\<close> hands the stripped text to the JSON decoder.
\<close>

theorem comments_only_outside_strings:
  assumes "\<forall>s \<in> set segs. wf_segment s"
  shows "removeCommentsFromJson (concat (map segment_text segs)) =
           Inr (concat (map segment_kept segs)) \<and>
         (newline \<notin> set cm \<and> carriage_return \<notin> set cm \<longrightarrow>
            removeCommentsFromJson (concat (map segment_text segs) @ slash # slash # cm) =
              Inr (concat (map segment_kept segs))) \<and>
         (\<not> sublist [star, slash] body \<longrightarrow>
            removeCommentsFromJson (concat (map segment_text segs) @ slash # star # body) =
              Inl ErrUnclosedComment) \<and>
         UnmarshalJsonWithComments env (concat (map segment_text segs)) =
           (case json_Unmarshal env (concat (map segment_kept segs)) of
              None \<Rightarrow> Inl ErrJsonUnmarshal
            | Some v \<Rightarrow> Inr v)"
proof -
  have run: "remove_loop False False [] (concat (map segment_text segs) @ rest) =
      remove_loop False False (concat (map segment_kept segs)) rest" for rest
    using remove_segments [OF assms, of "[]" rest] by simp
  have p1: "removeCommentsFromJson (concat (map segment_text segs)) =
           Inr (concat (map segment_kept segs))"
    using run [of "[]"] by (simp add: removeCommentsFromJson_def remove_loop_Nil)
  have p2: "newline \<notin> set cm \<and> carriage_return \<notin> set cm \<longrightarrow>
            removeCommentsFromJson (concat (map segment_text segs) @ slash # slash # cm) =
              Inr (concat (map segment_kept segs))"
    using run [of "slash # slash # cm"] by (simp add: removeCommentsFromJson_def remove_line_end)
  have p3: "\<not> sublist [star, slash] body \<longrightarrow>
            removeCommentsFromJson (concat (map segment_text segs) @ slash # star # body) =
              Inl ErrUnclosedComment"
    using run [of "slash # star # body"]
    by (simp add: removeCommentsFromJson_def remove_unclosed closes_sublist)
  have p4: "UnmarshalJsonWithComments env (concat (map segment_text segs)) =
           (case json_Unmarshal env (concat (map segment_kept segs)) of
              None \<Rightarrow> Inl ErrJsonUnmarshal
            | Some v \<Rightarrow> Inr v)"
    using p1 by (simp add: UnmarshalJsonWithComments_def)
  from p1 p2 p3 p4 show ?thesis by blast
qed

text \<open>
  The header \<^verbatim>\<open>{"title":"//not a comment inside string"}\<close> is returned unchanged and
  decoded with the value intact; followed by an unclosed block comment it is rejected.
\<close>

theorem comments_only_outside_strings_witness:
  \<open>wf_segment (Plain (to_runes ''{'')) \<and>
   wf_segment (StringLit (to_runes ''title'')) \<and>
   wf_segment (Plain (to_runes '':'')) \<and>
   wf_segment (StringLit (to_runes ''//not a comment inside string'')) \<and>
   wf_segment (Plain (to_runes ''}'')) \<and>
   concat (map segment_text
     [Plain (to_runes ''{''), StringLit (to_runes ''title''), Plain (to_runes '':''),
      StringLit (to_runes ''//not a comment inside string''), Plain (to_runes ''}'')]) =
     to_runes ''{"title":"//not a comment inside string"}'' \<and>
   removeCommentsFromJson (to_runes ''{"title":"//not a comment inside string"}'') =
     Inr (to_runes ''{"title":"//not a comment inside string"}'') \<and>
   removeCommentsFromJson (to_runes ''{"title":"//not a comment inside string"}/* open'') =
     Inl ErrUnclosedComment \<and>
   UnmarshalJsonWithComments demo_env (to_runes ''{"title":"//not a comment inside string"}'') =
     Inr [to_runes ''title'' \<mapsto> to_runes ''//not a comment inside string'']\<close>
proof -
  let ?segs = "[Plain (to_runes ''{''), StringLit (to_runes ''title''), Plain (to_runes '':''),
      StringLit (to_runes ''//not a comment inside string''), Plain (to_runes ''}'')]"
  have wf: "\<forall>s \<in> set ?segs. wf_segment s" by (simp add: to_runes_def)
  have t: \<open>concat (map segment_text ?segs) = to_runes ''{"title":"//not a comment inside string"}''\<close>
    by (simp add: to_runes_def)
  have k: \<open>concat (map segment_kept ?segs) = to_runes ''{"title":"//not a comment inside string"}''\<close>
    by (simp add: to_runes_def)
  have b: "\<not> sublist [star, slash] (to_runes '' open'')"
    unfolding closes_sublist [symmetric] by (simp add: to_runes_def)
  have j: \<open>json_Unmarshal demo_env (to_runes ''{"title":"//not a comment inside string"}'') =
      Some [to_runes ''title'' \<mapsto> to_runes ''//not a comment inside string'']\<close>
    by (simp add: demo_eval)
  have a: \<open>to_runes ''{"title":"//not a comment inside string"}/* open'' =
      to_runes ''{"title":"//not a comment inside string"}'' @ slash # star # to_runes '' open''\<close>
    by (simp add: to_runes_def)
  from comments_only_outside_strings [OF wf, of "[]" "to_runes '' open''" demo_env] b
  show ?thesis
    unfolding t k a j using wf t by simp
qed

end
